theory Spec2Isabelle
  imports Complex_Main "HOL-Library.Stream" "HOL-Library.Log_Nat"
begin

section \<open>The terminal snake game (snake.py)\<close>

text \<open>
  A shallow embedding of the game engine of \<^verbatim>\<open>snake.py\<close>: coordinates and directions,
  the snake as a head-first list, the food spawner, the collision check, the pacing
  function and the body of \<^verbatim>\<open>Game.main_loop\<close>.

  Conventions.
  \<^item> Python exceptions are values: a function that can raise returns \<open>error + 'a\<close>.
  \<^item> Python integers are \<open>int\<close>. The pacing function is given twice: once with its
    floats idealised as \<open>real\<close> (exact arithmetic, no rounding), and once in double
    precision, every operation rounded to the nearest double.
  \<^item> The curses window is represented by what \<^verbatim>\<open>window.getmaxyx()\<close> returns; it is
    taken to be the same throughout a game (no resize).
  \<^item> The global random source is an explicit stream of natural numbers that is
    threaded through every function that draws from it.
  \<^item> The rejection loop of the food spawner may run forever, so it is a partial
    function into \<open>option\<close>: \<open>None\<close> is ``does not return''.
\<close>

subsection \<open>Constants, errors, the window\<close>

datatype error = IndexError | ValueError | ZeroDivisionError

definition TIC :: real where
  "TIC = 1 / 6"

definition BORDER :: int where
  "BORDER = 0"

datatype Color = BLACK | RED | GREEN | YELLOW | BLUE | MAGENTA | CYAN | WHITE

record Window =
  getmaxyx :: "int \<times> int"

definition get_window_max_yx :: "Window \<Rightarrow> int \<times> int" where
  "get_window_max_yx window =
     (case getmaxyx window of (max_y, max_x) \<Rightarrow> (max_y - 1, max_x - 1))"

subsection \<open>Direction\<close>

datatype Direction = UP | DOWN | LEFT | RIGHT

definition horizontal :: "Direction set" where
  "horizontal = {LEFT, RIGHT}"

definition vertical :: "Direction set" where
  "vertical = {UP, DOWN}"

definition is_opposite :: "Direction \<Rightarrow> Direction \<Rightarrow> bool" where
  "is_opposite self other =
     (self = UP \<and> other = DOWN \<or>
      self = DOWN \<and> other = UP \<or>
      self = LEFT \<and> other = RIGHT \<or>
      self = RIGHT \<and> other = LEFT)"

subsection \<open>Coord\<close>

record Coord =
  y :: int
  x :: int

definition mk_Coord :: "int \<Rightarrow> int \<Rightarrow> Coord" where
  "mk_Coord r c = \<lparr>y = r, x = c\<rparr>"

definition Coord_add :: "Coord \<Rightarrow> Coord \<Rightarrow> Coord" where
  "Coord_add self other = mk_Coord (y self + y other) (x self + x other)"

definition Coord_sub :: "Coord \<Rightarrow> Coord \<Rightarrow> Coord" where
  "Coord_sub self other = mk_Coord (y self - y other) (x self - x other)"

definition from_direction :: "Direction \<Rightarrow> Coord" where
  "from_direction direction =
     (let coord = mk_Coord 0 0 in
      if direction = UP then coord\<lparr>y := y coord - 1\<rparr>
      else if direction = DOWN then coord\<lparr>y := y coord + 1\<rparr>
      else if direction = LEFT then coord\<lparr>x := x coord - 1\<rparr>
      else if direction = RIGHT then coord\<lparr>x := x coord + 1\<rparr>
      else coord)"

type_synonym Snake = "Coord list"

subsection \<open>The random source\<close>

text \<open>
  \<^verbatim>\<open>random.randint(a, b)\<close> and \<^verbatim>\<open>random.choice(seq)\<close> belong to the Python standard
  library. They are modelled by their documented contract: \<^verbatim>\<open>randint(a, b)\<close> raises
  \<^verbatim>\<open>ValueError\<close> when \<open>b < a\<close> and otherwise returns some \<open>N\<close> with \<open>a \<le> N \<le> b\<close>;
  \<^verbatim>\<open>choice(seq)\<close> raises \<^verbatim>\<open>IndexError\<close> on an empty sequence and otherwise returns one
  of its elements. Which one is decided by the next number of the stream; every value
  of the range can be drawn.
\<close>

type_synonym rng = "nat stream"

definition randint :: "int \<Rightarrow> int \<Rightarrow> rng \<Rightarrow> error + (int \<times> rng)" where
  "randint a b g =
     (if b < a then Inl ValueError
      else Inr (a + int (shd g mod nat (b - a + 1)), stl g))"

definition choice :: "'a list \<Rightarrow> rng \<Rightarrow> error + ('a \<times> rng)" where
  "choice seq g =
     (if seq = [] then Inl IndexError
      else Inr (seq ! (shd g mod length seq), stl g))"

definition random_inside_window :: "Window \<Rightarrow> int \<Rightarrow> rng \<Rightarrow> error + (Coord \<times> rng)" where
  "random_inside_window window border g =
     (case get_window_max_yx window of (max_y, max_x) \<Rightarrow>
        (case randint border (max_y - border) g of
           Inl e \<Rightarrow> Inl e
         | Inr (r, g1) \<Rightarrow>
             (case randint border (max_x - border) g1 of
                Inl e \<Rightarrow> Inl e
              | Inr (c, g2) \<Rightarrow> Inr (mk_Coord r c, g2))))"

subsection \<open>Food\<close>

text \<open>The one-character \<^verbatim>\<open>image\<close> of a food is kept as its code point.\<close>

record Food =
  image_str :: nat
  coord :: Coord
  color :: Color

text \<open>
  \<^verbatim>\<open>Food.random_outside_snake\<close>: a \<^verbatim>\<open>while True\<close> loop that samples a coordinate with
  a border of 5 and tries again as long as the sample lies on the snake.
\<close>

partial_function (option) random_outside_snake ::
  "Window \<Rightarrow> Snake \<Rightarrow> rng \<Rightarrow> (error + (Coord \<times> rng)) option" where
  "random_outside_snake window snake g =
     (case random_inside_window window 5 g of
        Inl e \<Rightarrow> Some (Inl e)
      | Inr (c, g') \<Rightarrow>
          if c \<in> set snake then random_outside_snake window snake g'
          else Some (Inr (c, g')))"

definition food_images :: "nat list" where
  "food_images = [37, 36, 35, 226, 8222, 8211, 56]"

definition food_colors :: "Color list" where
  "food_colors = [RED, YELLOW, GREEN, WHITE]"

definition create_random_food ::
  "Window \<Rightarrow> Snake \<Rightarrow> rng \<Rightarrow> (error + (Food \<times> rng)) option" where
  "create_random_food window snake g =
     (case choice food_images g of
        Inl e \<Rightarrow> Some (Inl e)
      | Inr (img, g1) \<Rightarrow>
          (case choice food_colors g1 of
             Inl e \<Rightarrow> Some (Inl e)
           | Inr (col, g2) \<Rightarrow>
               (case random_outside_snake window snake g2 of
                  None \<Rightarrow> None
                | Some (Inl e) \<Rightarrow> Some (Inl e)
                | Some (Inr (c, g3)) \<Rightarrow>
                    Some (Inr (\<lparr>image_str = img, coord = c, color = col\<rparr>, g3)))))"

text \<open>
  The \<open>k\<close>-th coordinate that the rejection loop would sample from the random stream
  \<open>g\<close> (each sample takes two numbers), or the error of the sampling.
\<close>

definition nth_sample :: "Window \<Rightarrow> rng \<Rightarrow> nat \<Rightarrow> error + Coord" where
  "nth_sample window g k =
     map_sum id fst (random_inside_window window 5 (sdrop (2 * k) g))"

subsection \<open>Snake model, collision check, pacing\<close>

definition snake_move :: "Snake \<Rightarrow> Direction \<Rightarrow> bool \<Rightarrow> error + Snake" where
  "snake_move snake direction can_grow =
     (case snake of
        [] \<Rightarrow> Inl IndexError
      | h # _ \<Rightarrow>
          (let head = Coord_add h (from_direction direction) in
           if head = h then Inr snake
           else if can_grow then Inr (head # snake)
           else Inr (butlast (head # snake))))"

definition get_window_center :: "Window \<Rightarrow> Coord" where
  "get_window_center window =
     (case get_window_max_yx window of (max_y, max_x) \<Rightarrow>
        mk_Coord (max_y div 2) (max_x div 2))"

definition can_eat_food :: "Snake \<Rightarrow> Food \<Rightarrow> error + bool" where
  "can_eat_food snake food =
     (case snake of [] \<Rightarrow> Inl IndexError | h # _ \<Rightarrow> Inr (h = coord food))"

definition can_go_further :: "Window \<Rightarrow> Snake \<Rightarrow> Direction \<Rightarrow> error + bool" where
  "can_go_further window snake direction =
     (case snake of
        [] \<Rightarrow> Inl IndexError
      | h # _ \<Rightarrow>
          (let next_head_coord = Coord_add h (from_direction direction) in
           case get_window_max_yx window of (max_y, max_x) \<Rightarrow>
             Inr (\<not> (y next_head_coord < BORDER \<or>
                      y next_head_coord > max_y - BORDER \<or>
                      x next_head_coord < BORDER \<or>
                      x next_head_coord > max_x - BORDER \<or>
                      next_head_coord \<in> set snake))))"

definition calculate_frame_timeout :: "Snake \<Rightarrow> Direction \<Rightarrow> error + real" where
  "calculate_frame_timeout snake direction =
     (let horizontal_correction = (if direction \<in> horizontal then 0.5 else 1) in
      if length snake * 2 = 0 then Inl ZeroDivisionError
      else
        (let snake_size_correction = 1 / real (length snake * 2) in
         Inr (TIC * horizontal_correction + snake_size_correction)))"

subsection \<open>The pacing function in double precision\<close>

text \<open>
  A Python float is an IEEE 754 binary64 number, and each of \<^verbatim>\<open>1 / 6\<close>, the product, the
  quotient \<^verbatim>\<open>1 / (len(snake) * 2)\<close> and the sum returns the exact result rounded to the
  nearest double, ties to even. The doubles are kept as the rationals they denote.

  \<open>binade q\<close> is the exponent \<open>e\<close> with \<open>2 powi e \<le> q < 2 powi (e + 1)\<close> of a positive
  rational, found from the bit lengths of its numerator and denominator. A double has
  a significand of 53 bits, so the doubles around \<open>q\<close> are the multiples of
  \<open>2 powi (e - 52)\<close>, and of \<open>2 powi - 1074\<close> below the normal range. Overflow is not
  modelled: the pacing function stays below 1.
\<close>

definition round_half_even :: "rat \<Rightarrow> int" where
  "round_half_even r =
     (let f = \<lfloor>r\<rfloor> in
      if r - of_int f < 1 / 2 then f
      else if 1 / 2 < r - of_int f then f + 1
      else if even f then f else f + 1)"

definition binade :: "rat \<Rightarrow> int" where
  "binade q =
     (case quotient_of q of (a, b) \<Rightarrow>
        (let d = bitlen a - bitlen b in if 2 powi d \<le> q then d else d - 1))"

definition ulp_exp :: "rat \<Rightarrow> int" where
  "ulp_exp q = max (binade q - 52) (- 1074)"

definition double_of :: "rat \<Rightarrow> rat" where
  "double_of q =
     (if q = 0 then 0
      else
        (let u = 2 powi ulp_exp \<bar>q\<bar> in
         sgn q * of_int (round_half_even (\<bar>q\<bar> / u)) * u))"

definition TIC_double :: rat where
  "TIC_double = double_of (1 / 6)"

definition calculate_frame_timeout_double :: "Snake \<Rightarrow> Direction \<Rightarrow> error + rat" where
  "calculate_frame_timeout_double snake direction =
     (let horizontal_correction = (if direction \<in> horizontal then 1 / 2 else 1) in
      if length snake * 2 = 0 then Inl ZeroDivisionError
      else
        (let snake_size_correction = double_of (1 / of_nat (length snake * 2)) in
         Inr (double_of (double_of (TIC_double * horizontal_correction)
                         + snake_size_correction))))"

subsection \<open>The game and its main loop\<close>

record Game =
  snake :: Snake
  food :: Food
  direction :: Direction
  debug :: bool

text \<open>
  \<^verbatim>\<open>Game.from_curses_window\<close>: one segment at the centre of the window, a random food,
  direction \<^verbatim>\<open>DOWN\<close>.
\<close>

definition from_curses_window ::
  "Window \<Rightarrow> bool \<Rightarrow> rng \<Rightarrow> (error + (Game \<times> rng)) option" where
  "from_curses_window window dbg g =
     (let center_coord = get_window_center window;
          snake0 = [center_coord] in
      case create_random_food window snake0 g of
        None \<Rightarrow> None
      | Some (Inl e) \<Rightarrow> Some (Inl e)
      | Some (Inr (food0, g')) \<Rightarrow>
          Some (Inr (\<lparr>snake = snake0, food = food0, direction = DOWN, debug = dbg\<rparr>, g')))"

text \<open>
  The loop has no flag of its own: it runs until \<^verbatim>\<open>break\<close>. \<open>Running\<close> is the
  state of an iteration that reached the drawing code, \<open>GameOver\<close> the state after
  the \<^verbatim>\<open>break\<close>.
\<close>

datatype Status = Running | GameOver

text \<open>
  The control part of an iteration (lines 315 to 318): \<open>polled\<close> is what
  \<^verbatim>\<open>get_direction(window)\<close> returned, \<open>None\<close> when no mapped key was pressed. Every
  member of the enumeration is truthy.
\<close>

definition poll_direction :: "Direction option \<Rightarrow> Game \<Rightarrow> Game" where
  "poll_direction polled game =
     (case polled of
        None \<Rightarrow> game
      | Some new_direction \<Rightarrow>
          if \<not> is_opposite new_direction (direction game)
          then game\<lparr>direction := new_direction\<rparr>
          else game)"

text \<open>
  One iteration of the \<^verbatim>\<open>while True\<close> loop of \<^verbatim>\<open>Game.main_loop\<close>, up to the
  \<^verbatim>\<open>break\<close> or the drawing code. Drawing and sleeping do not change the game, and
  the snake is not empty where the timeout of the sleep is computed. \<open>polled\<close> is the
  result of \<^verbatim>\<open>get_direction(window)\<close> in this iteration.
\<close>

definition tick ::
  "Window \<Rightarrow> Direction option \<Rightarrow> Game \<Rightarrow> rng \<Rightarrow> (error + (Status \<times> Game \<times> rng)) option" where
  "tick window polled game0 g =
     (let game1 = poll_direction polled game0 in
      case can_eat_food (snake game1) (food game1) of
        Inl e \<Rightarrow> Some (Inl e)
      | Inr can_grow \<Rightarrow>
          (case (if can_grow
                 then create_random_food window (snake game1) g
                 else Some (Inr (food game1, g))) of
             None \<Rightarrow> None
           | Some (Inl e) \<Rightarrow> Some (Inl e)
           | Some (Inr (food2, g2)) \<Rightarrow>
               (case snake_move (snake game1) (direction game1) can_grow of
                  Inl e \<Rightarrow> Some (Inl e)
                | Inr snake2 \<Rightarrow>
                    (let game2 = game1\<lparr>snake := snake2, food := food2\<rparr> in
                     case can_go_further window snake2 (direction game2) of
                       Inl e \<Rightarrow> Some (Inl e)
                     | Inr ok \<Rightarrow>
                         Some (Inr (if ok then Running else GameOver, game2, g2))))))"

text \<open>
  The loop, run on the sequence of polled inputs of its iterations. It stops at the
  \<^verbatim>\<open>break\<close>; with the inputs used up, the game is still running.
\<close>

fun main_loop ::
  "Window \<Rightarrow> Direction option list \<Rightarrow> Game \<Rightarrow> rng \<Rightarrow> (error + (Status \<times> Game \<times> rng)) option" where
  "main_loop window [] game g = Some (Inr (Running, game, g))"
| "main_loop window (polled # rest) game g =
     (case tick window polled game g of
        None \<Rightarrow> None
      | Some (Inl e) \<Rightarrow> Some (Inl e)
      | Some (Inr (GameOver, game', g')) \<Rightarrow> Some (Inr (GameOver, game', g'))
      | Some (Inr (Running, game', g')) \<Rightarrow> main_loop window rest game' g')"

text \<open>The program: build the game from the window, then run the loop.\<close>

definition play ::
  "Window \<Rightarrow> bool \<Rightarrow> Direction option list \<Rightarrow> rng \<Rightarrow> (error + (Status \<times> Game \<times> rng)) option" where
  "play window dbg inputs g =
     (case from_curses_window window dbg g of
        None \<Rightarrow> None
      | Some (Inl e) \<Rightarrow> Some (Inl e)
      | Some (Inr (game, g')) \<Rightarrow> main_loop window inputs game g')"


text \<open>The arena: the cells that \<^verbatim>\<open>can_go_further\<close> accepts as rows and columns.\<close>

definition in_bounds :: "Window \<Rightarrow> Coord \<Rightarrow> bool" where
  "in_bounds window c =
     (case get_window_max_yx window of (max_y, max_x) \<Rightarrow>
        BORDER \<le> y c \<and> y c \<le> max_y - BORDER \<and> BORDER \<le> x c \<and> x c \<le> max_x - BORDER)"

section \<open>Properties\<close>

subsection \<open>Geometry\<close>

lemma from_direction_simps:
  "from_direction UP = mk_Coord (-1) 0"
  "from_direction DOWN = mk_Coord 1 0"
  "from_direction LEFT = mk_Coord 0 (-1)"
  "from_direction RIGHT = mk_Coord 0 1"
  by (simp_all add: from_direction_def mk_Coord_def)

text \<open>A step never stays in place: the early return of \<^verbatim>\<open>snake_move\<close> is dead.\<close>

lemma Coord_add_from_direction_neq: "Coord_add h (from_direction d) \<noteq> h"
proof
  assume "Coord_add h (from_direction d) = h"
  then have "y (Coord_add h (from_direction d)) = y h"
    and "x (Coord_add h (from_direction d)) = x h"
    by simp_all
  then show False
    by (cases d) (simp_all add: from_direction_simps Coord_add_def mk_Coord_def)
qed

subsection \<open>The snake model\<close>

text \<open>
  Claim C4. For every non-empty snake and every direction, \<^verbatim>\<open>snake_move\<close> prepends the
  new head \<open>head + unit vector\<close>; without growth it also removes the last segment and
  the length stays the same, with growth it removes nothing and the length grows by one.
\<close>

theorem snake_move_prepends:
  assumes "s \<noteq> []"
  shows "snake_move s d False = Inr (Coord_add (hd s) (from_direction d) # butlast s)
       \<and> snake_move s d True = Inr (Coord_add (hd s) (from_direction d) # s)
       \<and> (\<exists>s'. snake_move s d False = Inr s' \<and> length s' = length s)
       \<and> (\<exists>s'. snake_move s d True = Inr s' \<and> length s' = length s + 1)"
  using assms
  by (cases s) (simp_all add: snake_move_def Let_def Coord_add_from_direction_neq)

theorem snake_move_prepends_witness:
  "snake_move [mk_Coord 3 3, mk_Coord 3 2, mk_Coord 3 1] RIGHT False
     = Inr [mk_Coord 3 4, mk_Coord 3 3, mk_Coord 3 2]
   \<and> snake_move [mk_Coord 3 3, mk_Coord 3 2, mk_Coord 3 1] RIGHT True
     = Inr [mk_Coord 3 4, mk_Coord 3 3, mk_Coord 3 2, mk_Coord 3 1]"
  using snake_move_prepends [of "[mk_Coord 3 3, mk_Coord 3 2, mk_Coord 3 1]" RIGHT]
  by (simp add: from_direction_simps Coord_add_def mk_Coord_def)

subsection \<open>The collision and bounds check\<close>

text \<open>
  Claim C3. \<^verbatim>\<open>can_go_further\<close> returns false exactly when the next head (the head plus
  the unit vector of the direction) has a row or a column outside
  \<open>[BORDER, max - BORDER]\<close> or is a segment of the snake, the last segment included;
  it never raises on a non-empty snake. In particular it is false for a one-segment
  snake in a corner of the arena that moves outward.
\<close>

theorem can_go_further_false_iff:
  assumes "s \<noteq> []" and "get_window_max_yx w = (max_y, max_x)"
  shows "(can_go_further w s d = Inr False \<longleftrightarrow>
           (let next_head = Coord_add (hd s) (from_direction d) in
            y next_head \<notin> {BORDER .. max_y - BORDER} \<or>
            x next_head \<notin> {BORDER .. max_x - BORDER} \<or>
            next_head \<in> set s))
       \<and> (can_go_further w s d = Inr True \<or> can_go_further w s d = Inr False)
       \<and> (Coord_add (hd s) (from_direction d) = last s \<longrightarrow> can_go_further w s d = Inr False)
       \<and> can_go_further w [mk_Coord 0 0] UP = Inr False
       \<and> can_go_further w [mk_Coord 0 0] LEFT = Inr False
       \<and> can_go_further w [mk_Coord 0 max_x] UP = Inr False
       \<and> can_go_further w [mk_Coord 0 max_x] RIGHT = Inr False
       \<and> can_go_further w [mk_Coord max_y 0] DOWN = Inr False
       \<and> can_go_further w [mk_Coord max_y 0] LEFT = Inr False
       \<and> can_go_further w [mk_Coord max_y max_x] DOWN = Inr False
       \<and> can_go_further w [mk_Coord max_y max_x] RIGHT = Inr False"
  using assms
  by (cases s)
     (auto simp add: can_go_further_def Let_def from_direction_simps Coord_add_def
        mk_Coord_def BORDER_def)

theorem can_go_further_false_iff_witness:
  "can_go_further \<lparr>getmaxyx = (10, 10)\<rparr>
     [mk_Coord 3 3, mk_Coord 3 2, mk_Coord 2 2, mk_Coord 2 3] UP = Inr False
   \<and> can_go_further \<lparr>getmaxyx = (10, 10)\<rparr>
     [mk_Coord 3 3, mk_Coord 3 2, mk_Coord 2 2, mk_Coord 2 3] RIGHT = Inr True
   \<and> can_go_further \<lparr>getmaxyx = (10, 10)\<rparr> [mk_Coord 9 9] DOWN = Inr False"
  using
    can_go_further_false_iff
      [of "[mk_Coord 3 3, mk_Coord 3 2, mk_Coord 2 2, mk_Coord 2 3]"
          "\<lparr>getmaxyx = (10, 10)\<rparr>" 9 9 UP]
    can_go_further_false_iff
      [of "[mk_Coord 3 3, mk_Coord 3 2, mk_Coord 2 2, mk_Coord 2 3]"
          "\<lparr>getmaxyx = (10, 10)\<rparr>" 9 9 RIGHT]
  by (auto simp add: get_window_max_yx_def from_direction_simps Coord_add_def
        mk_Coord_def BORDER_def)

subsection \<open>The food spawner\<close>

lemma random_inside_window_rest:
  "random_inside_window w b g = Inr (c, g') \<Longrightarrow> g' = stl (stl g)"
  by (auto simp: random_inside_window_def randint_def split: prod.splits sum.splits if_splits)

lemma nth_sample_Suc: "nth_sample w g (Suc k) = nth_sample w (stl (stl g)) k"
  by (simp add: nth_sample_def)

lemma ros_Some_ex:
  assumes "random_outside_snake w s g = Some r"
  shows "\<exists>k. \<not> (\<exists>c. nth_sample w g k = Inr c \<and> c \<in> set s)"
proof (rule random_outside_snake.raw_induct[OF _ assms], goal_cases)
  case (1 ros w s g r)
  show ?case
  proof (cases "random_inside_window w 5 g")
    case (Inl e)
    then have "nth_sample w g 0 = Inl e" by (simp add: nth_sample_def)
    then show ?thesis by (metis sum.distinct(1))
  next
    case (Inr p)
    obtain c g' where p: "p = (c, g')" by (cases p)
    show ?thesis
    proof (cases "c \<in> set s")
      case True
      with 1(2) Inr p have "ros w s g' = Some r" by simp
      from 1(1)[OF this] obtain k where k: "\<not> (\<exists>c. nth_sample w g' k = Inr c \<and> c \<in> set s)" by blast
      have "g' = stl (stl g)" using Inr p random_inside_window_rest by blast
      with k have "\<not> (\<exists>c. nth_sample w g (Suc k) = Inr c \<and> c \<in> set s)"
        by (simp add: nth_sample_Suc)
      then show ?thesis by blast
    next
      case False
      have "nth_sample w g 0 = Inr c" using Inr p by (simp add: nth_sample_def)
      with False show ?thesis by (metis sum.inject(2))
    qed
  qed
qed

lemma ros_ex_Some:
  "\<not> (\<exists>c. nth_sample w g k = Inr c \<and> c \<in> set s) \<Longrightarrow> random_outside_snake w s g \<noteq> None"
proof (induction k arbitrary: g)
  case 0
  then show ?case
    by (subst random_outside_snake.simps) (auto simp: nth_sample_def split: sum.splits)
next
  case (Suc k)
  show ?case
  proof (cases "random_inside_window w 5 g")
    case (Inl e)
    then show ?thesis by (subst random_outside_snake.simps) simp
  next
    case (Inr p)
    obtain c g' where p: "p = (c, g')" by (cases p)
    have g': "g' = stl (stl g)" using Inr p random_inside_window_rest by blast
    show ?thesis
    proof (cases "c \<in> set s")
      case True
      from Suc.prems have "\<not> (\<exists>c. nth_sample w g' k = Inr c \<and> c \<in> set s)"
        by (simp add: nth_sample_Suc g')
      from Suc.IH[OF this] have "random_outside_snake w s g' \<noteq> None" .
      then show ?thesis using Inr p True by (subst random_outside_snake.simps) simp
    next
      case False
      then show ?thesis using Inr p by (subst random_outside_snake.simps) simp
    qed
  qed
qed


lemma random_inside_window_range:
  assumes "random_inside_window w b g = Inr (c, g')" and "get_window_max_yx w = (max_y, max_x)"
  shows "b \<le> y c \<and> y c \<le> max_y - b \<and> b \<le> x c \<and> x c \<le> max_x - b"
proof -
  have m: "\<And>(a::int) n k. a \<le> n \<Longrightarrow> a + int (k mod nat (n - a + 1)) \<le> n"
  proof -
    fix a n :: int and k :: nat
    assume "a \<le> n"
    then have "0 < nat (n - a + 1)" by simp
    then have "k mod nat (n - a + 1) < nat (n - a + 1)" by (rule mod_less_divisor)
    then show "a + int (k mod nat (n - a + 1)) \<le> n" by linarith
  qed
  from assms show ?thesis
    by (auto simp: random_inside_window_def randint_def mk_Coord_def m
             split: sum.splits if_splits)
qed

lemma random_inside_window_small:
  assumes "get_window_max_yx w = (max_y, max_x)" and "max_y - b < b \<or> max_x - b < b"
  shows "random_inside_window w b g = Inl ValueError"
  using assms by (auto simp: random_inside_window_def randint_def)

lemma random_inside_window_large:
  assumes "get_window_max_yx w = (max_y, max_x)" and "b \<le> max_y - b" and "b \<le> max_x - b"
  shows "\<exists>c. random_inside_window w b g = Inr (c, stl (stl g))"
  using assms by (auto simp: random_inside_window_def randint_def)

lemma random_outside_snake_hit:
  "random_inside_window w 5 g = Inr (c, g') \<Longrightarrow> c \<notin> set s \<Longrightarrow>
     random_outside_snake w s g = Some (Inr (c, g'))"
  by (subst random_outside_snake.simps) simp

lemma random_outside_snake_miss:
  "random_inside_window w 5 g = Inr (c, g') \<Longrightarrow> c \<in> set s \<Longrightarrow>
     random_outside_snake w s g = random_outside_snake w s g'"
  by (subst random_outside_snake.simps) simp

lemma random_outside_snake_raise:
  "random_inside_window w 5 g = Inl e \<Longrightarrow> random_outside_snake w s g = Some (Inl e)"
  by (subst random_outside_snake.simps) simp

lemma ros_post:
  assumes "random_outside_snake w s g = Some r"
  shows "case r of
        Inl e \<Rightarrow> \<exists>g0. random_inside_window w 5 g0 = Inl e
      | Inr (c, g') \<Rightarrow> c \<notin> set s \<and> (\<exists>g0. random_inside_window w 5 g0 = Inr (c, g'))"
proof (rule random_outside_snake.raw_induct[OF _ assms], goal_cases)
  case (1 ros w s g r)
  show ?case
  proof (cases "random_inside_window w 5 g")
    case (Inl e)
    with 1(2) show ?thesis by auto
  next
    case (Inr p)
    obtain c g' where p: "p = (c, g')" by (cases p)
    show ?thesis
    proof (cases "c \<in> set s")
      case True
      with 1(2) Inr p have "ros w s g' = Some r" by simp
      from 1(1)[OF this] show ?thesis .
    next
      case False
      with 1(2) Inr p have "r = Inr (c, g')" by simp
      with False Inr p show ?thesis by auto
    qed
  qed
qed

text \<open>
  Claim C8. Every coordinate that \<^verbatim>\<open>Food.random_outside_snake\<close> returns is not a segment
  of the snake, and its row and column lie in the band \<open>[5, max - 5]\<close> of the window.
\<close>

theorem random_outside_snake_post:
  assumes "random_outside_snake w s g = Some (Inr (c, g'))"
    and "get_window_max_yx w = (max_y, max_x)"
  shows "c \<notin> set s \<and> 5 \<le> y c \<and> y c \<le> max_y - 5 \<and> 5 \<le> x c \<and> x c \<le> max_x - 5"
proof -
  from ros_post[OF assms(1)] obtain g0 where
    "c \<notin> set s" and "random_inside_window w 5 g0 = Inr (c, g')" by auto
  with random_inside_window_range[OF _ assms(2)] show ?thesis by blast
qed

theorem random_outside_snake_post_witness:
  "random_outside_snake \<lparr>getmaxyx = (21, 21)\<rparr> [mk_Coord 10 10] (5 ## 5 ## 6 ## 5 ## sconst 0)
     = Some (Inr (mk_Coord 11 10, sconst 0))
   \<and> mk_Coord 11 10 \<notin> set [mk_Coord 10 10]
   \<and> get_window_max_yx \<lparr>getmaxyx = (21, 21)\<rparr> = (20, 20)"
proof -
  let ?w = "\<lparr>getmaxyx = (21, 21)\<rparr>"
  have a: "random_inside_window ?w 5 (5 ## 5 ## 6 ## 5 ## sconst 0)
             = Inr (mk_Coord 10 10, 6 ## 5 ## sconst 0)"
    by (simp add: random_inside_window_def randint_def get_window_max_yx_def)
  have b: "random_inside_window ?w 5 (6 ## 5 ## sconst 0) = Inr (mk_Coord 11 10, sconst 0)"
    by (simp add: random_inside_window_def randint_def get_window_max_yx_def)
  have c: "mk_Coord 11 10 \<notin> set [mk_Coord 10 10]" by (simp add: mk_Coord_def)
  have r: "random_outside_snake ?w [mk_Coord 10 10] (5 ## 5 ## 6 ## 5 ## sconst 0)
             = Some (Inr (mk_Coord 11 10, sconst 0))"
    using random_outside_snake_miss[OF a, of "[mk_Coord 10 10]"]
      random_outside_snake_hit[OF b c] by simp
  have m: "get_window_max_yx ?w = (20, 20)" by (simp add: get_window_max_yx_def)
  from random_outside_snake_post[OF r m] r m show ?thesis by simp
qed

lemma nth_sample_covered:
  assumes m: "get_window_max_yx w = (max_y, max_x)" and "10 \<le> max_y" and "10 \<le> max_x"
    and cov: "\<forall>r c. 5 \<le> r \<and> r \<le> max_y - 5 \<and> 5 \<le> c \<and> c \<le> max_x - 5
                 \<longrightarrow> mk_Coord r c \<in> set s"
  shows "\<exists>c. nth_sample w g k = Inr c \<and> c \<in> set s"
proof -
  let ?g = "sdrop (2 * k) g"
  from random_inside_window_large[OF m, of 5 ?g] assms(2,3)
  obtain c where c: "random_inside_window w 5 ?g = Inr (c, stl (stl ?g))" by auto
  from random_inside_window_range[OF c m]
  have "mk_Coord (y c) (x c) \<in> set s" using cov by blast
  moreover have "mk_Coord (y c) (x c) = c" by (simp add: mk_Coord_def)
  ultimately have "c \<in> set s" by simp
  moreover have "nth_sample w g k = Inr c" using c by (simp add: nth_sample_def)
  ultimately show ?thesis by blast
qed

lemma random_outside_snake_None_iff:
  "random_outside_snake w s g = None \<longleftrightarrow> (\<forall>k. \<exists>c. nth_sample w g k = Inr c \<and> c \<in> set s)"
proof
  assume n: "random_outside_snake w s g = None"
  show "\<forall>k. \<exists>c. nth_sample w g k = Inr c \<and> c \<in> set s"
  proof (rule ccontr)
    assume "\<not> (\<forall>k. \<exists>c. nth_sample w g k = Inr c \<and> c \<in> set s)"
    then obtain k where "\<not> (\<exists>c. nth_sample w g k = Inr c \<and> c \<in> set s)" by blast
    from ros_ex_Some[OF this] n show False by simp
  qed
next
  assume a: "\<forall>k. \<exists>c. nth_sample w g k = Inr c \<and> c \<in> set s"
  show "random_outside_snake w s g = None"
  proof (cases "random_outside_snake w s g")
    case None then show ?thesis .
  next
    case (Some r)
    from ros_Some_ex[OF this] a show ?thesis by blast
  qed
qed

lemma random_outside_snake_covered:
  assumes "get_window_max_yx w = (max_y, max_x)" and "10 \<le> max_y" and "10 \<le> max_x"
    and "\<forall>r c. 5 \<le> r \<and> r \<le> max_y - 5 \<and> 5 \<le> c \<and> c \<le> max_x - 5
                 \<longrightarrow> mk_Coord r c \<in> set s"
  shows "random_outside_snake w s g = None"
  using nth_sample_covered[OF assms] by (simp add: random_outside_snake_None_iff)

lemma random_outside_snake_error:
  assumes "random_outside_snake w s g = Some (Inl e)" and "get_window_max_yx w = (max_y, max_x)"
  shows "e = ValueError \<and> (max_y < 10 \<or> max_x < 10)"
proof -
  from ros_post[OF assms(1)] obtain g0 where g0: "random_inside_window w 5 g0 = Inl e" by auto
  show ?thesis
  proof (cases "max_y < 10 \<or> max_x < 10")
    case True
    with random_inside_window_small[OF assms(2), of 5 g0] g0 show ?thesis by auto
  next
    case False
    with random_inside_window_large[OF assms(2), of 5 g0] g0 show ?thesis by auto
  qed
qed

text \<open>
  Claim C5 says that the spawn always terminates and reports exhaustion as a condition
  of its own. It does not: in a window of 11 rows and 12 columns the sampling region
  is the two cells \<open>(5, 5)\<close> and \<open>(5, 6)\<close>, and with the snake on both the loop never
  returns.
\<close>

theorem random_outside_snake_exhaustion_diverges:
  "random_outside_snake \<lparr>getmaxyx = (11, 12)\<rparr> [mk_Coord 5 5, mk_Coord 5 6] (sconst 0) = None"
proof (rule random_outside_snake_covered[where max_y = 10 and max_x = 11])
  show "get_window_max_yx \<lparr>getmaxyx = (11, 12)\<rparr> = (10, 11)"
    by (simp add: get_window_max_yx_def)
  show "\<forall>r c. 5 \<le> r \<and> r \<le> 10 - 5 \<and> 5 \<le> c \<and> c \<le> 11 - 5
                 \<longrightarrow> mk_Coord r c \<in> set [mk_Coord 5 5, mk_Coord 5 6]"
  proof (intro allI impI)
    fix r c :: int
    assume "5 \<le> r \<and> r \<le> 10 - 5 \<and> 5 \<le> c \<and> c \<le> 11 - 5"
    then have "r = 5" and "c = 5 \<or> c = 6" by auto
    then show "mk_Coord r c \<in> set [mk_Coord 5 5, mk_Coord 5 6]" by auto
  qed
qed simp_all

text \<open>
  Claim C5, amended. The spawn returns (a coordinate or the sampling error) exactly
  when some sample of the random stream is not a coordinate on the snake. When the
  snake occupies the whole non-empty sampling region it returns for no random stream:
  there is no exhaustion condition.
\<close>

theorem random_outside_snake_returns_iff:
  "(random_outside_snake w s g \<noteq> None \<longleftrightarrow>
      (\<exists>k. nth_sample w g k \<notin> Inr ` set s))
   \<and> (get_window_max_yx w = (max_y, max_x) \<and> 10 \<le> max_y \<and> 10 \<le> max_x \<and>
        (\<forall>r c. 5 \<le> r \<and> r \<le> max_y - 5 \<and> 5 \<le> c \<and> c \<le> max_x - 5
                 \<longrightarrow> mk_Coord r c \<in> set s)
      \<longrightarrow> random_outside_snake w s g = None)"
proof -
  have "(\<exists>c. nth_sample w g k = Inr c \<and> c \<in> set s) \<longleftrightarrow> nth_sample w g k \<in> Inr ` set s" for k
    by auto
  then have "random_outside_snake w s g \<noteq> None \<longleftrightarrow> (\<exists>k. nth_sample w g k \<notin> Inr ` set s)"
    by (simp add: random_outside_snake_None_iff)
  moreover have "get_window_max_yx w = (max_y, max_x) \<and> 10 \<le> max_y \<and> 10 \<le> max_x \<and>
        (\<forall>r c. 5 \<le> r \<and> r \<le> max_y - 5 \<and> 5 \<le> c \<and> c \<le> max_x - 5
                 \<longrightarrow> mk_Coord r c \<in> set s)
      \<longrightarrow> random_outside_snake w s g = None"
    using random_outside_snake_covered by blast
  ultimately show ?thesis by blast
qed

theorem random_outside_snake_returns_iff_witness:
  "random_outside_snake \<lparr>getmaxyx = (11, 11)\<rparr> [mk_Coord 5 5] (sconst 7) = None
   \<and> random_outside_snake \<lparr>getmaxyx = (11, 12)\<rparr> [mk_Coord 5 5] (sconst 1) \<noteq> None"
proof -
  have a: "get_window_max_yx \<lparr>getmaxyx = (11, 11)\<rparr> = (10, 10)"
    by (simp add: get_window_max_yx_def)
  have b: "\<forall>r c. 5 \<le> r \<and> r \<le> 10 - 5 \<and> 5 \<le> c \<and> c \<le> 10 - 5
                 \<longrightarrow> mk_Coord r c \<in> set [mk_Coord 5 5]"
    by (auto simp: mk_Coord_def)
  have c: "nth_sample \<lparr>getmaxyx = (11, 12)\<rparr> (sconst 1) 0 \<notin> Inr ` set [mk_Coord 5 5]"
    by (simp add: nth_sample_def random_inside_window_def randint_def get_window_max_yx_def
          mk_Coord_def)
  show ?thesis
    using random_outside_snake_returns_iff
            [of "\<lparr>getmaxyx = (11, 11)\<rparr>" "[mk_Coord 5 5]" "sconst 7" 10 10]
          random_outside_snake_returns_iff
            [of "\<lparr>getmaxyx = (11, 12)\<rparr>" "[mk_Coord 5 5]" "sconst 1" 10 11]
          a b c
    by blast
qed

text \<open>
  Claim C10 says that with both maxima at least 10 a coordinate is returned. In an
  11 by 11 window both maxima are 10, the sampling region is the single cell
  \<open>(5, 5)\<close>, and that is the centre, where the game puts its first snake: no
  coordinate is returned.
\<close>

theorem random_outside_snake_large_window_diverges:
  "get_window_max_yx \<lparr>getmaxyx = (11, 11)\<rparr> = (10, 10)
   \<and> get_window_center \<lparr>getmaxyx = (11, 11)\<rparr> = mk_Coord 5 5
   \<and> random_outside_snake \<lparr>getmaxyx = (11, 11)\<rparr> [get_window_center \<lparr>getmaxyx = (11, 11)\<rparr>]
         (sconst 0) = None"
proof -
  have a: "get_window_max_yx \<lparr>getmaxyx = (11, 11)\<rparr> = (10, 10)"
    by (simp add: get_window_max_yx_def)
  have c: "get_window_center \<lparr>getmaxyx = (11, 11)\<rparr> = mk_Coord 5 5"
    by (simp add: get_window_center_def a)
  have b: "\<forall>r c. 5 \<le> r \<and> r \<le> 10 - 5 \<and> 5 \<le> c \<and> c \<le> 10 - 5
                 \<longrightarrow> mk_Coord r c \<in> set [get_window_center \<lparr>getmaxyx = (11, 11)\<rparr>]"
    by (auto simp: c)
  from random_outside_snake_covered[OF a _ _ b] a c show ?thesis by simp
qed

text \<open>
  Claim C10, amended. If the maximum row or column index of the window is below 10,
  \<^verbatim>\<open>Food.random_outside_snake\<close> raises \<^verbatim>\<open>ValueError\<close>. If both are at least 10, it never
  raises, and it returns a coordinate provided some sample of the random stream lies
  off the snake.
\<close>

theorem random_outside_snake_arena_size:
  assumes "get_window_max_yx w = (max_y, max_x)"
  shows "(max_y < 10 \<or> max_x < 10 \<longrightarrow> random_outside_snake w s g = Some (Inl ValueError))
       \<and> (10 \<le> max_y \<and> 10 \<le> max_x \<longrightarrow>
            (\<forall>e. random_outside_snake w s g \<noteq> Some (Inl e))
          \<and> ((\<exists>k. nth_sample w g k \<notin> Inr ` set s) \<longrightarrow>
               (\<exists>c g'. random_outside_snake w s g = Some (Inr (c, g')))))"
proof (intro conjI impI allI)
  assume "max_y < 10 \<or> max_x < 10"
  then have "random_inside_window w 5 g = Inl ValueError"
    using random_inside_window_small[OF assms, of 5 g] by auto
  then show "random_outside_snake w s g = Some (Inl ValueError)"
    by (rule random_outside_snake_raise)
next
  fix e
  assume "10 \<le> max_y \<and> 10 \<le> max_x"
  then show "random_outside_snake w s g \<noteq> Some (Inl e)"
    using random_outside_snake_error[OF _ assms, of s g e] by auto
next
  assume big: "10 \<le> max_y \<and> 10 \<le> max_x" and "\<exists>k. nth_sample w g k \<notin> Inr ` set s"
  then obtain k where "\<not> (\<exists>c. nth_sample w g k = Inr c \<and> c \<in> set s)" by auto
  from ros_ex_Some[OF this] obtain r where r: "random_outside_snake w s g = Some r" by auto
  show "\<exists>c g'. random_outside_snake w s g = Some (Inr (c, g'))"
  proof (cases r)
    case (Inl e)
    with r random_outside_snake_error[OF _ assms, of s g e] big show ?thesis by auto
  next
    case (Inr p)
    with r show ?thesis by (cases p) auto
  qed
qed

theorem random_outside_snake_arena_size_witness:
  "random_outside_snake \<lparr>getmaxyx = (10, 80)\<rparr> [mk_Coord 4 40] (sconst 0) = Some (Inl ValueError)
   \<and> random_outside_snake \<lparr>getmaxyx = (24, 10)\<rparr> [mk_Coord 11 4] (sconst 0) = Some (Inl ValueError)
   \<and> (\<exists>c g'. random_outside_snake \<lparr>getmaxyx = (24, 80)\<rparr> [mk_Coord 11 39] (sconst 0)
                = Some (Inr (c, g')))"
proof -
  have a: "get_window_max_yx \<lparr>getmaxyx = (10, 80)\<rparr> = (9, 79)"
    and b: "get_window_max_yx \<lparr>getmaxyx = (24, 10)\<rparr> = (23, 9)"
    and c: "get_window_max_yx \<lparr>getmaxyx = (24, 80)\<rparr> = (23, 79)"
    by (simp_all add: get_window_max_yx_def)
  have "nth_sample \<lparr>getmaxyx = (24, 80)\<rparr> (sconst 0) 0 \<notin> Inr ` set [mk_Coord 11 39]"
    by (simp add: nth_sample_def random_inside_window_def randint_def get_window_max_yx_def
          mk_Coord_def)
  then have d: "\<exists>k. nth_sample \<lparr>getmaxyx = (24, 80)\<rparr> (sconst 0) k \<notin> Inr ` set [mk_Coord 11 39]"
    by blast
  show ?thesis
    using random_outside_snake_arena_size[OF a, of "[mk_Coord 4 40]" "sconst 0"]
      random_outside_snake_arena_size[OF b, of "[mk_Coord 11 4]" "sconst 0"]
      random_outside_snake_arena_size[OF c, of "[mk_Coord 11 39]" "sconst 0"] d
    by simp
qed

subsection \<open>The pacing function in exact arithmetic\<close>

lemma calculate_frame_timeout_eq:
  "s \<noteq> [] \<Longrightarrow>
     calculate_frame_timeout s d
       = Inr (TIC * (if d \<in> horizontal then 0.5 else 1) + 1 / (2 * real (length s)))"
  by (simp add: calculate_frame_timeout_def Let_def mult.commute)

text \<open>
  Claim C6 says that the game slows down as the snake grows: a longer snake never has
  a shorter delay. Going down, a snake of length 2 waits 5/12 of a second, a snake of
  length 1 waits 2/3.
\<close>

theorem calculate_frame_timeout_longer_is_faster:
  "calculate_frame_timeout [mk_Coord 5 5] DOWN = Inr (2 / 3)
   \<and> calculate_frame_timeout [mk_Coord 6 5, mk_Coord 5 5] DOWN = Inr (5 / 12)
   \<and> (5 / 12 :: real) < 2 / 3"
  by (simp add: calculate_frame_timeout_def horizontal_def TIC_def)

text \<open>
  Claim C6, amended. The game speeds up as the snake grows, as the docstring of
  \<^verbatim>\<open>calculate_frame_timeout\<close> says: with the direction fixed, a longer snake never has
  a longer delay than a shorter one, and the delay converges to the base tick.
\<close>

theorem calculate_frame_timeout_antitone:
  assumes "1 \<le> length s1" and "length s1 \<le> length s2"
  shows "(\<exists>t1 t2. calculate_frame_timeout s1 d = Inr t1
               \<and> calculate_frame_timeout s2 d = Inr t2
               \<and> t2 \<le> t1)
       \<and> (\<forall>eps > 0. \<exists>N. \<forall>s. N \<le> length s \<longrightarrow>
             (\<exists>t. calculate_frame_timeout s d = Inr t
                \<and> \<bar>t - TIC * (if d \<in> horizontal then 0.5 else 1)\<bar> < eps))"
proof
  from assms have ne: "s1 \<noteq> []" "s2 \<noteq> []" by auto
  have pos: "0 < real (length s1)" "0 < real (length s2)" using assms by auto
  have le: "real (length s1) \<le> real (length s2)" using assms by simp
  have "1 / (2 * real (length s2)) \<le> 1 / (2 * real (length s1))"
    using pos le by (simp add: frac_le)
  then show "\<exists>t1 t2. calculate_frame_timeout s1 d = Inr t1
               \<and> calculate_frame_timeout s2 d = Inr t2 \<and> t2 \<le> t1"
    by (simp add: calculate_frame_timeout_eq[OF ne(1)] calculate_frame_timeout_eq[OF ne(2)])
next
  show "\<forall>eps > 0. \<exists>N. \<forall>s. N \<le> length s \<longrightarrow>
             (\<exists>t. calculate_frame_timeout s d = Inr t
                \<and> \<bar>t - TIC * (if d \<in> horizontal then 0.5 else 1)\<bar> < eps)"
  proof (intro allI impI)
    fix eps :: real
    assume eps: "0 < eps"
    obtain N :: nat where N: "1 / eps < real N" using reals_Archimedean2 by blast
    have Npos: "0 < N" using N eps by (metis less_trans not_gr_zero of_nat_0 zero_less_divide_1_iff less_irrefl)
    have "\<forall>s. N \<le> length s \<longrightarrow>
             (\<exists>t. calculate_frame_timeout s d = Inr t
                \<and> \<bar>t - TIC * (if d \<in> horizontal then 0.5 else 1)\<bar> < eps)"
    proof (intro allI impI)
      fix s :: Snake
      assume len: "N \<le> length s"
      with Npos have ne: "s \<noteq> []" by auto
      have lpos: "0 < real (length s)" using ne by simp
      have "1 / eps < real (length s)" using N len by (meson less_le_trans of_nat_le_iff)
      then have "1 < eps * real (length s)" using eps by (simp add: divide_less_eq mult.commute)
      moreover have "eps * real (length s) \<le> eps * (2 * real (length s))"
        using eps lpos by simp
      ultimately have "1 < eps * (2 * real (length s))" by linarith
      then have "1 / (2 * real (length s)) < eps" using lpos by (simp add: divide_less_eq)
      moreover have "0 < 1 / (2 * real (length s))" using lpos by simp
      ultimately show "\<exists>t. calculate_frame_timeout s d = Inr t
                \<and> \<bar>t - TIC * (if d \<in> horizontal then 0.5 else 1)\<bar> < eps"
        by (simp add: calculate_frame_timeout_eq[OF ne])
    qed
    then show "\<exists>N. \<forall>s. N \<le> length s \<longrightarrow>
             (\<exists>t. calculate_frame_timeout s d = Inr t
                \<and> \<bar>t - TIC * (if d \<in> horizontal then 0.5 else 1)\<bar> < eps)" by blast
  qed
qed

theorem calculate_frame_timeout_antitone_witness:
  "calculate_frame_timeout [mk_Coord 5 5] UP = Inr (2 / 3)
   \<and> calculate_frame_timeout [mk_Coord 4 5, mk_Coord 5 5] UP = Inr (5 / 12)
   \<and> (5 / 12 :: real) \<le> 2 / 3
   \<and> (\<exists>N. \<forall>s. N \<le> length s \<longrightarrow>
         (\<exists>t. calculate_frame_timeout s UP = Inr t \<and> \<bar>t - TIC\<bar> < 1 / 100))"
proof -
  have len: "1 \<le> length [mk_Coord 5 5]"
    "length [mk_Coord 5 5] \<le> length [mk_Coord 4 5, mk_Coord 5 5]"
    by simp_all
  note t = calculate_frame_timeout_antitone
             [OF len, of UP]
  from t have "\<forall>eps > 0. \<exists>N. \<forall>s. N \<le> length s \<longrightarrow>
             (\<exists>t. calculate_frame_timeout s UP = Inr t
                \<and> \<bar>t - TIC * (if UP \<in> horizontal then 0.5 else 1)\<bar> < eps)"
    by (rule conjunct2)
  then have "\<exists>N. \<forall>s. N \<le> length s \<longrightarrow>
             (\<exists>t. calculate_frame_timeout s UP = Inr t
                \<and> \<bar>t - TIC * (if UP \<in> horizontal then 0.5 else 1)\<bar> < 1 / 100)"
    by (rule allE [where x = "1 / 100"]) simp
  then have conv: "\<exists>N. \<forall>s. N \<le> length s \<longrightarrow>
         (\<exists>t. calculate_frame_timeout s UP = Inr t \<and> \<bar>t - TIC\<bar> < 1 / 100)"
    by (simp add: horizontal_def)
  have "calculate_frame_timeout [mk_Coord 5 5] UP = Inr (2 / 3)"
    and "calculate_frame_timeout [mk_Coord 4 5, mk_Coord 5 5] UP = Inr (5 / 12)"
    by (simp_all add: calculate_frame_timeout_def horizontal_def TIC_def)
  with conv show ?thesis by simp
qed

subsection \<open>The pacing function in double precision\<close>

lemma binade_bounds:
  assumes "0 < q"
  shows "2 powi (binade q) \<le> q \<and> q < 2 powi (binade q + 1)"
proof -
  obtain a b where ab: "quotient_of q = (a, b)" by (cases "quotient_of q")
  then have b: "0 < b" and q: "q = of_int a / of_int b"
    by (simp_all add: quotient_of_denom_pos quotient_of_div)
  with assms have a: "0 < a" by (simp add: zero_less_divide_iff)
  let ?la = "bitlen a" and ?lb = "bitlen b"
  from bitlen_bounds[OF a] have a1: "2 ^ nat (?la - 1) \<le> a" and a2: "a < 2 ^ nat ?la" by simp_all
  from bitlen_bounds[OF b] have b1: "2 ^ nat (?lb - 1) \<le> b" and b2: "b < 2 ^ nat ?lb" by simp_all
  have la: "1 \<le> ?la" using a a2 bitlen_nonneg[of a] by (cases "?la = 0") auto
  have lb: "1 \<le> ?lb" using b b2 bitlen_nonneg[of b] by (cases "?lb = 0") auto
  have A1: "(2::rat) powi (?la - 1) \<le> of_int a"
  proof -
    have "(of_int (2 ^ nat (?la - 1)) :: rat) \<le> of_int a" using a1 by (simp only: of_int_le_iff)
    then show ?thesis using la by (simp add: power_int_nonneg_exp)
  qed
  have A2: "of_int a < (2::rat) powi ?la"
  proof -
    have "(of_int a :: rat) < of_int (2 ^ nat ?la)" using a2 by (simp only: of_int_less_iff)
    then show ?thesis using la by (simp add: power_int_nonneg_exp)
  qed
  have B1: "(2::rat) powi (?lb - 1) \<le> of_int b"
  proof -
    have "(of_int (2 ^ nat (?lb - 1)) :: rat) \<le> of_int b" using b1 by (simp only: of_int_le_iff)
    then show ?thesis using lb by (simp add: power_int_nonneg_exp)
  qed
  have B2: "of_int b < (2::rat) powi ?lb"
  proof -
    have "(of_int b :: rat) < of_int (2 ^ nat ?lb)" using b2 by (simp only: of_int_less_iff)
    then show ?thesis using lb by (simp add: power_int_nonneg_exp)
  qed
  have bpos: "(0::rat) < of_int b" using b by simp
  have apos: "(0::rat) < of_int a" using a by simp
  let ?d = "?la - ?lb"
  have up: "q < 2 powi (?d + 1)"
  proof -
    have "q * 2 powi (?lb - 1) \<le> q * of_int b" using B1 assms by simp
    also have "\<dots> = of_int a" using q bpos by simp
    also have "\<dots> < 2 powi ?la" by (rule A2)
    finally have "q * 2 powi (?lb - 1) < 2 powi ?la" .
    then have "q < 2 powi ?la / 2 powi (?lb - 1)" by (simp add: pos_less_divide_eq)
    also have "\<dots> = 2 powi (?la - (?lb - 1))" by (simp add: power_int_diff)
    finally show ?thesis by (simp add: algebra_simps)
  qed
  have lo: "2 powi (?d - 1) \<le> q"
  proof -
    have "2 powi (?la - 1) \<le> (of_int a :: rat)" by (rule A1)
    also have "\<dots> = q * of_int b" using q bpos by simp
    also have "\<dots> \<le> q * 2 powi ?lb" using B2 assms by simp
    finally have "2 powi (?la - 1) / 2 powi ?lb \<le> q" by (simp add: pos_divide_le_eq)
    moreover have "(2::rat) powi (?la - 1) / 2 powi ?lb = 2 powi (?la - 1 - ?lb)"
      by (simp add: power_int_diff)
    ultimately show ?thesis by (simp add: algebra_simps)
  qed
  show ?thesis
  proof (cases "2 powi ?d \<le> q")
    case True
    then have "binade q = ?d" by (simp add: binade_def ab Let_def)
    with True up show ?thesis by simp
  next
    case False
    then have "binade q = ?d - 1" by (simp add: binade_def ab Let_def)
    with False lo show ?thesis by simp
  qed
qed

lemma round_half_even_floor:
  "\<lfloor>r\<rfloor> \<le> round_half_even r \<and> round_half_even r \<le> \<lfloor>r\<rfloor> + 1"
  by (simp add: round_half_even_def Let_def)

lemma round_half_even_error:
  "\<bar>of_int (round_half_even r) - r\<bar> \<le> 1 / 2"
proof -
  have "of_int \<lfloor>r\<rfloor> \<le> r" and "r < of_int \<lfloor>r\<rfloor> + 1" by linarith+
  then show ?thesis
    by (auto simp: round_half_even_def Let_def abs_le_iff)
qed

lemma round_half_even_of_int [simp]: "round_half_even (of_int k) = k"
  by (simp add: round_half_even_def)

lemma round_half_even_mono:
  assumes "r \<le> r'"
  shows "round_half_even r \<le> round_half_even r'"
proof (cases "\<lfloor>r\<rfloor> = \<lfloor>r'\<rfloor>")
  case True
  with assms show ?thesis
    by (auto simp: round_half_even_def Let_def)
next
  case False
  with assms have "\<lfloor>r\<rfloor> + 1 \<le> \<lfloor>r'\<rfloor>" using floor_mono[OF assms] by linarith
  with round_half_even_floor[of r] round_half_even_floor[of r'] show ?thesis by linarith
qed

lemma double_of_pos:
  "0 < q \<Longrightarrow> double_of q = of_int (round_half_even (q / 2 powi ulp_exp q)) * 2 powi ulp_exp q"
  by (simp add: double_of_def Let_def)

lemma two_powi_less_D:
  assumes "(2::rat) powi m < 2 powi n"
  shows "m < n"
proof (rule ccontr)
  assume "\<not> m < n"
  then have "n \<le> m" by simp
  then have "(2::rat) powi n \<le> 2 powi m" by (rule power_int_increasing) simp
  with assms show False by simp
qed

lemma binade_unique:
  assumes "0 < q" and "2 powi e \<le> q" and "q < 2 powi (e + 1)"
  shows "binade q = e"
proof -
  from binade_bounds[OF assms(1)] have b: "2 powi (binade q) \<le> q" "q < 2 powi (binade q + 1)"
    by simp_all
  have "(2::rat) powi e < 2 powi (binade q + 1)" using assms(2) b(2) by linarith
  then have 1: "e < binade q + 1" by (rule two_powi_less_D)
  have "(2::rat) powi (binade q) < 2 powi (e + 1)" using assms(3) b(1) by linarith
  then have 2: "binade q < e + 1" by (rule two_powi_less_D)
  from 1 2 show ?thesis by linarith
qed

lemma binade_mono:
  assumes "0 < p" and "p \<le> q"
  shows "binade p \<le> binade q"
proof -
  have q: "0 < q" using assms by linarith
  from binade_bounds[OF assms(1)] binade_bounds[OF q] assms(2)
  have "(2::rat) powi (binade p) < 2 powi (binade q + 1)" by linarith
  then have "binade p < binade q + 1" by (rule two_powi_less_D)
  then show ?thesis by linarith
qed


lemma ulp_exp_mono: "0 < p \<Longrightarrow> p \<le> q \<Longrightarrow> ulp_exp p \<le> ulp_exp q"
  using binade_mono[of p q] by (simp add: ulp_exp_def)

lemma double_of_nonneg: "0 < q \<Longrightarrow> 0 \<le> double_of q"
proof -
  assume q: "0 < q"
  have "0 \<le> q / 2 powi ulp_exp q" using q by simp
  then have "round_half_even 0 \<le> round_half_even (q / 2 powi ulp_exp q)"
    by (rule round_half_even_mono)
  moreover have "round_half_even 0 = 0" using round_half_even_of_int[of 0] by simp
  ultimately have "0 \<le> round_half_even (q / 2 powi ulp_exp q)" by simp
  then show ?thesis using q by (simp add: double_of_pos)
qed

text \<open>Rounding is monotone on the positive rationals.\<close>

lemma double_of_mono:
  assumes p: "0 < p" and pq: "p \<le> q"
  shows "double_of p \<le> double_of q"
proof -
  have q: "0 < q" using assms by linarith
  let ?up = "(2::rat) powi ulp_exp p" and ?uq = "(2::rat) powi ulp_exp q"
  have up: "0 < ?up" and uq: "0 < ?uq" by simp_all
  show ?thesis
  proof (cases "ulp_exp p = ulp_exp q")
    case True
    have "p / ?up \<le> q / ?up" using pq up by (simp add: divide_right_mono)
    then have "round_half_even (p / ?up) \<le> round_half_even (q / ?up)"
      by (rule round_half_even_mono)
    then have "(of_int (round_half_even (p / ?up)) :: rat) * ?up
                 \<le> of_int (round_half_even (q / ?up)) * ?up"
      using up by (simp add: mult_right_mono)
    then show ?thesis using True by (simp add: double_of_pos p q)
  next
    case False
    with ulp_exp_mono[OF p pq] have lt: "ulp_exp p < ulp_exp q" by simp
    then have eq: "ulp_exp q = binade q - 52" and bl: "binade p < binade q"
      by (auto simp: ulp_exp_def max_def split: if_splits)
    let ?B = "(2::rat) powi binade q"
    \<comment> \<open>the smaller number rounds to at most \<open>2 powi binade q\<close>\<close>
    have k: "0 \<le> binade q - ulp_exp p" using lt eq by simp
    have K: "?B / ?up = of_int (2 ^ nat (binade q - ulp_exp p))"
      using k by (simp add: power_int_diff[symmetric] power_int_nonneg_exp)
    have "p < 2 powi (binade p + 1)" using binade_bounds[OF p] by simp
    also have "\<dots> \<le> ?B" using bl by (intro power_int_increasing) simp_all
    finally have "p / ?up \<le> ?B / ?up" using up by (simp add: divide_right_mono)
    then have "round_half_even (p / ?up) \<le> round_half_even (?B / ?up)"
      by (rule round_half_even_mono)
    then have "round_half_even (p / ?up) \<le> 2 ^ nat (binade q - ulp_exp p)"
      by (simp only: K round_half_even_of_int)
    then have "(of_int (round_half_even (p / ?up)) :: rat) \<le> of_int (2 ^ nat (binade q - ulp_exp p))"
      by (simp only: of_int_le_iff)
    then have "(of_int (round_half_even (p / ?up)) :: rat) \<le> ?B / ?up" by (simp only: K)
    then have lo: "double_of p \<le> ?B"
      using up by (simp add: double_of_pos p pos_le_divide_eq)
    \<comment> \<open>the larger number rounds to at least \<open>2 powi binade q\<close>\<close>
    have Q: "?B / ?uq = of_int (2 ^ 52)"
      by (simp add: eq power_int_diff[symmetric])
    have "?B \<le> q" using binade_bounds[OF q] by simp
    then have "?B / ?uq \<le> q / ?uq" using uq by (simp add: divide_right_mono)
    then have "round_half_even (?B / ?uq) \<le> round_half_even (q / ?uq)"
      by (rule round_half_even_mono)
    then have "2 ^ 52 \<le> round_half_even (q / ?uq)"
      by (simp only: Q round_half_even_of_int)
    then have "(of_int (2 ^ 52) :: rat) \<le> of_int (round_half_even (q / ?uq))"
      by (simp only: of_int_le_iff)
    then have "?B / ?uq \<le> of_int (round_half_even (q / ?uq))" by (simp only: Q)
    then have hi: "?B \<le> double_of q"
      using uq by (simp add: double_of_pos q pos_divide_le_eq)
    from lo hi show ?thesis by linarith
  qed
qed

text \<open>Below 1 the spacing of the doubles is at most \<open>2 powi - 53\<close>.\<close>

lemma double_of_error:
  assumes "0 < q" and "q < 1"
  shows "\<bar>double_of q - q\<bar> \<le> 1 / 2 ^ 54"
proof -
  let ?u = "(2::rat) powi ulp_exp q"
  have u: "0 < ?u" by simp
  have "(2::rat) powi binade q < 2 powi 0" using binade_bounds[OF assms(1)] assms(2) by simp
  then have "binade q < 0" by (rule two_powi_less_D)
  then have "ulp_exp q \<le> - 53" by (simp add: ulp_exp_def)
  then have "?u \<le> 2 powi (- 53)" by (intro power_int_increasing) simp_all
  then have u53: "?u \<le> 1 / 2 ^ 53" by (simp add: power_int_minus_divide)
  have "double_of q - q = (of_int (round_half_even (q / ?u)) - q / ?u) * ?u"
    using u by (simp add: double_of_pos assms(1) algebra_simps)
  then have "\<bar>double_of q - q\<bar> = \<bar>of_int (round_half_even (q / ?u)) - q / ?u\<bar> * ?u"
    using u by (simp add: abs_mult)
  also have "\<dots> \<le> (1 / 2) * ?u"
    using round_half_even_error[of "q / ?u"] u by (intro mult_right_mono) simp_all
  also have "\<dots> \<le> (1 / 2) * (1 / 2 ^ 53)" using u53 by simp
  finally show ?thesis by simp
qed

lemma round_half_even_eqI:
  assumes "of_int k - 1 / 2 < r" and "r < of_int k + 1 / 2"
  shows "round_half_even r = k"
proof -
  have f: "of_int \<lfloor>r\<rfloor> \<le> r" "r < of_int \<lfloor>r\<rfloor> + 1" by linarith+
  from assms f have "\<lfloor>r\<rfloor> = k \<or> \<lfloor>r\<rfloor> = k - 1" 
  proof -
    have "of_int \<lfloor>r\<rfloor> < (of_int k :: rat) + 1" using assms(2) f(1) by linarith
    then have "\<lfloor>r\<rfloor> < k + 1" by (metis of_int_1 of_int_add of_int_less_iff)
    moreover have "(of_int k :: rat) - 1 < of_int \<lfloor>r\<rfloor> + 1" using assms(1) f(2) by linarith
    then have "k - 1 < \<lfloor>r\<rfloor> + 1" by (metis of_int_1 of_int_add of_int_diff of_int_less_iff)
    ultimately show ?thesis by linarith
  qed
  then show ?thesis
  proof
    assume e: "\<lfloor>r\<rfloor> = k"
    then show ?thesis using assms by (simp add: round_half_even_def Let_def)
  next
    assume e: "\<lfloor>r\<rfloor> = k - 1"
    then have "1 / 2 < r - of_int \<lfloor>r\<rfloor>" using assms(1) by simp
    then show ?thesis using e by (simp add: round_half_even_def Let_def)
  qed
qed

text \<open>Evaluating \<open>double_of\<close> in the normal range without a tie.\<close>

lemma double_of_eqI:
  assumes q: "0 < q" and lo: "2 powi e \<le> q" and hi: "q < 2 powi (e + 1)" and e: "- 1022 \<le> e"
    and k1: "of_int k - 1 / 2 < q * 2 powi (52 - e)"
    and k2: "q * 2 powi (52 - e) < of_int k + 1 / 2"
  shows "double_of q = of_int k / 2 powi (52 - e)"
proof -
  have "binade q = e" using q lo hi by (rule binade_unique)
  then have u: "ulp_exp q = e - 52" using e by (simp add: ulp_exp_def)
  have d: "q / 2 powi (e - 52) = q * 2 powi (52 - e)"
    by (simp add: power_int_diff field_simps)
  have "round_half_even (q / 2 powi (e - 52)) = k"
    unfolding d using k1 k2 by (rule round_half_even_eqI)
  then have "double_of q = of_int k * 2 powi (e - 52)"
    by (simp add: double_of_pos q u)
  also have "\<dots> = of_int k / 2 powi (52 - e)"
    by (simp add: power_int_diff field_simps)
  finally show ?thesis .
qed

lemma TIC_double_eq: "TIC_double = 6004799503160661 / 36028797018963968"
  unfolding TIC_double_def
  using double_of_eqI[of "1 / 6" "- 3" 6004799503160661] by simp

lemma double_of_TIC: "double_of (6004799503160661 / 36028797018963968) = 6004799503160661 / 36028797018963968"
  using double_of_eqI[of "6004799503160661 / 36028797018963968" "- 3" 6004799503160661] by simp

lemma double_of_half_TIC: "double_of (6004799503160661 / 72057594037927936) = 6004799503160661 / 72057594037927936"
  using double_of_eqI[of "6004799503160661 / 72057594037927936" "- 4" 6004799503160661] by simp

lemma double_of_half: "double_of (1 / 2) = 1 / 2"
  using double_of_eqI[of "1 / 2" "- 1" 4503599627370496] by simp

lemma size_correction_bounds:
  assumes "1 \<le> n"
  shows "0 < (1 :: rat) / of_nat (n * 2)" and "(1 :: rat) / of_nat (n * 2) \<le> 1 / 2"
proof -
  have "(1::rat) \<le> of_nat n" using assms by simp
  then show "0 < (1 :: rat) / of_nat (n * 2)" and "(1 :: rat) / of_nat (n * 2) \<le> 1 / 2"
    by (simp_all add: field_simps)
qed

lemma size_correction_antimono:
  assumes "1 \<le> m" and "m \<le> n"
  shows "(1 :: rat) / of_nat (n * 2) \<le> 1 / of_nat (m * 2)"
proof -
  have "(0::rat) < of_nat (m * 2)" using assms by simp
  moreover have "(of_nat (m * 2) :: rat) \<le> of_nat (n * 2)" using assms by simp
  ultimately show ?thesis by (simp add: frac_le)
qed

lemma size_correction_gap:
  assumes "1 \<le> m" and "m < n" and "n \<le> 2 ^ 25"
  shows "(1 :: rat) / 2 ^ 51 \<le> 1 / of_nat (m * 2) - 1 / of_nat (n * 2)"
proof -
  let ?x = "of_nat m :: rat" and ?y = "of_nat n :: rat"
  have x: "1 \<le> ?x" using assms by simp
  have "Suc m \<le> n" using assms(2) by simp
  then have "(of_nat (Suc m) :: rat) \<le> of_nat n" by (simp only: of_nat_le_iff)
  then have xy: "?x + 1 \<le> ?y" by simp
  have y: "?y \<le> 2 ^ 25" using assms(3) by (metis of_nat_le_iff of_nat_numeral of_nat_power)
  have xle: "?x \<le> 2 ^ 25" using xy y by linarith
  have prod: "?x * ?y \<le> 2 ^ 25 * 2 ^ 25" using x xle y by (intro mult_mono) simp_all
  have pos: "0 < ?x * ?y" using x xy by (simp add: zero_less_mult_iff)
  have "1 / (2 * (2 ^ 25 * 2 ^ 25)) \<le> 1 / (2 * (?x * ?y))"
    using prod pos by (intro divide_left_mono) (simp_all add: zero_less_mult_iff)
  also have "\<dots> \<le> (?y - ?x) / (2 * (?x * ?y))"
    using xy pos by (intro divide_right_mono) simp_all
  also have "\<dots> = 1 / (2 * ?x) - 1 / (2 * ?y)"
    using x xy by (simp add: field_simps)
  finally show ?thesis by (simp add: mult.commute)
qed

text \<open>
  The last two operations of the pacing function, for a base tick \<open>a\<close> that is itself
  a double below 1/4 and a snake of length \<open>n\<close>.
\<close>

lemma frame_sum_bounds:
  assumes a: "0 < a" "a < 1 / 4" and n: "1 \<le> n"
  shows "a \<le> a + double_of (1 / of_nat (n * 2))"
    and "a + double_of (1 / of_nat (n * 2)) < 1"
proof -
  note b = size_correction_bounds[OF n]
  from double_of_nonneg[OF b(1)] show "a \<le> a + double_of (1 / of_nat (n * 2))" by simp
  from double_of_mono[OF b] have "double_of (1 / of_nat (n * 2)) \<le> 1 / 2"
    by (simp add: double_of_half)
  with a show "a + double_of (1 / of_nat (n * 2)) < 1" by linarith
qed

lemma frame_delay_antimono:
  assumes a: "0 < a" "a < 1 / 4" and m: "1 \<le> m" and mn: "m \<le> n"
  shows "double_of (a + double_of (1 / of_nat (n * 2)))
           \<le> double_of (a + double_of (1 / of_nat (m * 2)))"
proof -
  have n: "1 \<le> n" using m mn by linarith
  from double_of_mono[OF size_correction_bounds(1)[OF n] size_correction_antimono[OF m mn]]
  have "a + double_of (1 / of_nat (n * 2)) \<le> a + double_of (1 / of_nat (m * 2))" by simp
  moreover have "0 < a + double_of (1 / of_nat (n * 2))"
    using frame_sum_bounds(1)[OF a n] a(1) by linarith
  ultimately show ?thesis by (rule double_of_mono[rotated])
qed

lemma frame_delay_ge_base:
  assumes a: "0 < a" "a < 1 / 4" and idem: "double_of a = a" and n: "1 \<le> n"
  shows "a \<le> double_of (a + double_of (1 / of_nat (n * 2)))"
  using double_of_mono[OF a(1) frame_sum_bounds(1)[OF a n]] idem by simp

lemma two_errors:
  fixes t r b a e :: rat
  assumes "\<bar>r - b\<bar> \<le> e" and "\<bar>t - (a + r)\<bar> \<le> e"
  shows "\<bar>t - (a + b)\<bar> \<le> e + e"
  using assms by linarith

lemma apart_lin:
  fixes tm tn a bm bn e g :: rat
  assumes "\<bar>tm - (a + bm)\<bar> \<le> e" and "\<bar>tn - (a + bn)\<bar> \<le> e"
    and "g \<le> bm - bn" and "e + e < g"
  shows "tn < tm"
  using assms by linarith

lemma above_lin:
  fixes t a b e g :: rat
  assumes "\<bar>t - (a + b)\<bar> \<le> e" and "g \<le> b" and "e < g"
  shows "a < t"
  using assms by linarith

lemma frame_delay_error:
  assumes a: "0 < a" "a < 1 / 4" and n: "1 \<le> n"
  shows "\<bar>double_of (a + double_of (1 / of_nat (n * 2))) - (a + 1 / of_nat (n * 2))\<bar>
           \<le> 1 / 2 ^ 54 + 1 / 2 ^ 54"
proof -
  note b = size_correction_bounds[OF n]
  have b1: "(1 :: rat) / of_nat (n * 2) < 1" using b(2) by linarith
  have s0: "0 < a + double_of (1 / of_nat (n * 2))"
    using frame_sum_bounds(1)[OF a n] a(1) by linarith
  show ?thesis
    using double_of_error[OF b(1) b1] double_of_error[OF s0 frame_sum_bounds(2)[OF a n]]
    by (rule two_errors)
qed

lemma frame_delay_strict:
  assumes a: "0 < a" "a < 1 / 4" and m: "1 \<le> m" and mn: "m < n" and n25: "n \<le> 2 ^ 25"
  shows "double_of (a + double_of (1 / of_nat (n * 2)))
           < double_of (a + double_of (1 / of_nat (m * 2)))"
proof -
  have n: "1 \<le> n" using m mn by linarith
  have "(1::rat) / 2 ^ 54 + 1 / 2 ^ 54 + (1 / 2 ^ 54 + 1 / 2 ^ 54) < 1 / 2 ^ 51" by simp
  with frame_delay_error[OF a m] frame_delay_error[OF a n] size_correction_gap[OF m mn n25]
  show ?thesis by (rule apart_lin)
qed

lemma frame_delay_gt_base:
  assumes a: "0 < a" "a < 1 / 4" and n: "1 \<le> n" and n25: "n \<le> 2 ^ 25"
  shows "a < double_of (a + double_of (1 / of_nat (n * 2)))"
proof -
  have "n * 2 \<le> 2 ^ 26" using n25 by simp
  then have "(of_nat (n * 2) :: rat) \<le> of_nat (2 ^ 26)" by (simp only: of_nat_le_iff)
  then have "(of_nat (n * 2) :: rat) \<le> 2 ^ 26" by simp
  moreover have "(0::rat) < of_nat (n * 2)" using n by simp
  ultimately have g: "(1::rat) / 2 ^ 26 \<le> 1 / of_nat (n * 2)" by (intro divide_left_mono) simp_all
  have "(1::rat) / 2 ^ 54 + 1 / 2 ^ 54 < 1 / 2 ^ 26" by simp
  with frame_delay_error[OF a n] g show ?thesis by (rule above_lin)
qed

lemma calculate_frame_timeout_double_eq:
  "s \<noteq> [] \<Longrightarrow>
     calculate_frame_timeout_double s d
       = Inr (double_of (double_of (TIC_double * (if d \<in> horizontal then 1 / 2 else 1))
                         + double_of (1 / of_nat (length s * 2))))"
  by (simp add: calculate_frame_timeout_double_def Let_def)

lemma base_tick_double:
  "double_of (TIC_double * (if d \<in> horizontal then 1 / 2 else 1))
     = (if d \<in> horizontal then 6004799503160661 / 72057594037927936
        else 6004799503160661 / 36028797018963968)"
  by (simp add: TIC_double_eq double_of_TIC double_of_half_TIC)

lemma base_tick_double_props:
  "0 < double_of (TIC_double * (if d \<in> horizontal then 1 / 2 else 1))"
  "double_of (TIC_double * (if d \<in> horizontal then 1 / 2 else 1)) < 1 / 4"
  "double_of (double_of (TIC_double * (if d \<in> horizontal then 1 / 2 else 1)))
     = double_of (TIC_double * (if d \<in> horizontal then 1 / 2 else 1))"
  by (simp_all add: base_tick_double double_of_TIC double_of_half_TIC)

text \<open>
  Claim C7 says that the frame delay is strictly decreasing in the length of the snake
  and strictly above the base tick for every length. In double precision, snakes of
  lengths 134225920 and 134225921 going down wait the same time, and at length
  \<open>10 ^ 17\<close> the delay is the base tick itself.
\<close>

theorem calculate_frame_timeout_double_not_strict:
  "calculate_frame_timeout_double (replicate 134225920 (mk_Coord 0 0)) DOWN
     = Inr (6004799637370197 / 36028797018963968)
   \<and> calculate_frame_timeout_double (replicate 134225921 (mk_Coord 0 0)) DOWN
     = Inr (6004799637370197 / 36028797018963968)
   \<and> calculate_frame_timeout_double (replicate 100000000000000000 (mk_Coord 0 0)) DOWN
     = Inr (6004799503160661 / 36028797018963968)
   \<and> double_of (TIC_double * 1) = 6004799503160661 / 36028797018963968"
proof -
  have nh: "(DOWN \<in> horizontal) = False" by (simp add: horizontal_def)
  have base: "double_of (TIC_double * (if DOWN \<in> horizontal then 1 / 2 else 1))
                = 6004799503160661 / 36028797018963968"
    using base_tick_double[of DOWN] by (simp only: nh if_False)
  have ne: "replicate 134225920 (mk_Coord 0 0) \<noteq> []" "replicate 134225921 (mk_Coord 0 0) \<noteq> []"
    "replicate 100000000000000000 (mk_Coord 0 0) \<noteq> []"
    by simp_all
  have l1: "(1::rat) / of_nat (length (replicate 134225920 (mk_Coord 0 0)) * 2) = 1 / 268451840"
    and l2: "(1::rat) / of_nat (length (replicate 134225921 (mk_Coord 0 0)) * 2) = 1 / 268451842"
    and l3: "(1::rat) / of_nat (length (replicate 100000000000000000 (mk_Coord 0 0)) * 2)
               = 1 / 200000000000000000"
    by simp_all
  have b1: "double_of (1 / 268451840) = 4397778092031 / 1180591620717411303424"
    using double_of_eqI[of "1 / 268451840" "- 29" 9006649532479488] by simp
  have s1: "double_of (6004799503160661 / 36028797018963968
                        + 4397778092031 / 1180591620717411303424)
              = 6004799637370197 / 36028797018963968"
    using double_of_eqI[of "6004799503160661 / 36028797018963968
                             + 4397778092031 / 1180591620717411303424" "- 3" 6004799637370197]
    by simp
  have b2: "double_of (1 / 268451842) = 4397778059267 / 1180591620717411303424"
    using double_of_eqI[of "1 / 268451842" "- 29" 9006649465378816] by simp
  have s2: "double_of (6004799503160661 / 36028797018963968
                        + 4397778059267 / 1180591620717411303424)
              = 6004799637370197 / 36028797018963968"
    using double_of_eqI[of "6004799503160661 / 36028797018963968
                             + 4397778059267 / 1180591620717411303424" "- 3" 6004799637370197]
    by simp
  have b3: "double_of (1 / 200000000000000000)
              = 6490371073168535 / 1298074214633706907132624082305024"
    using double_of_eqI[of "1 / 200000000000000000" "- 58" 6490371073168535] by simp
  have s3: "double_of (6004799503160661 / 36028797018963968
                        + 6490371073168535 / 1298074214633706907132624082305024)
              = 6004799503160661 / 36028797018963968"
    using double_of_eqI[of "6004799503160661 / 36028797018963968
                             + 6490371073168535 / 1298074214633706907132624082305024"
                           "- 3" 6004799503160661]
    by simp
  have r1: "calculate_frame_timeout_double (replicate 134225920 (mk_Coord 0 0)) DOWN
              = Inr (6004799637370197 / 36028797018963968)"
    by (simp only: calculate_frame_timeout_double_eq[OF ne(1)] base l1 b1 s1)
  have r2: "calculate_frame_timeout_double (replicate 134225921 (mk_Coord 0 0)) DOWN
              = Inr (6004799637370197 / 36028797018963968)"
    by (simp only: calculate_frame_timeout_double_eq[OF ne(2)] base l2 b2 s2)
  have r3: "calculate_frame_timeout_double (replicate 100000000000000000 (mk_Coord 0 0)) DOWN
              = Inr (6004799503160661 / 36028797018963968)"
    by (simp only: calculate_frame_timeout_double_eq[OF ne(3)] base l3 b3 s3)
  have r4: "double_of (TIC_double * 1) = 6004799503160661 / 36028797018963968"
    by (simp add: TIC_double_eq double_of_TIC)
  from r1 r2 r3 r4 show ?thesis by (intro conjI)
qed

text \<open>
  Claim C7, amended. With the direction fixed, the frame delay, as the code computes
  it in double precision, is non-increasing in the length of the snake and never
  below the base tick (\<open>TIC\<close> times the horizontal correction of the direction), for
  all lengths \<open>m < n\<close> with \<open>m \<ge> 1\<close>. For lengths up to \<open>2 ^ 25 = 33554432\<close> it is
  strictly decreasing and strictly above the base tick.
\<close>

theorem calculate_frame_timeout_double_decreasing:
  assumes "1 \<le> length s1" and "length s1 < length s2"
  shows "\<exists>t1 t2. calculate_frame_timeout_double s1 d = Inr t1
               \<and> calculate_frame_timeout_double s2 d = Inr t2
               \<and> t2 \<le> t1
               \<and> double_of (TIC_double * (if d \<in> horizontal then 1 / 2 else 1)) \<le> t2
               \<and> (length s2 \<le> 2 ^ 25 \<longrightarrow>
                    t2 < t1
                  \<and> double_of (TIC_double * (if d \<in> horizontal then 1 / 2 else 1)) < t2)"
proof -
  let ?a = "double_of (TIC_double * (if d \<in> horizontal then 1 / 2 else 1))"
  let ?f = "\<lambda>n. double_of (?a + double_of (1 / of_nat (n * 2)))"
  note a = base_tick_double_props(1,2)[of d]
  from assms have ne: "s1 \<noteq> []" "s2 \<noteq> []" by auto
  have n2: "1 \<le> length s2" using assms by linarith
  have le: "length s1 \<le> length s2" using assms by linarith
  have mono: "?f (length s2) \<le> ?f (length s1)"
    using frame_delay_antimono[OF a assms(1) le] .
  have base: "?a \<le> ?f (length s2)"
    using frame_delay_ge_base[OF a base_tick_double_props(3) n2] .
  have strict: "length s2 \<le> 2 ^ 25 \<longrightarrow> ?f (length s2) < ?f (length s1) \<and> ?a < ?f (length s2)"
    using frame_delay_strict[OF a assms(1) assms(2)] frame_delay_gt_base[OF a n2] by blast
  from mono base strict show ?thesis
    by (simp only: calculate_frame_timeout_double_eq[OF ne(1)]
          calculate_frame_timeout_double_eq[OF ne(2)]) blast
qed

theorem calculate_frame_timeout_double_decreasing_witness:
  "calculate_frame_timeout_double [mk_Coord 5 5] LEFT = Inr (5254199565265579 / 9007199254740992)
   \<and> calculate_frame_timeout_double [mk_Coord 5 4, mk_Coord 5 5] LEFT
       = Inr (6004799503160661 / 18014398509481984)
   \<and> double_of (TIC_double * (1 / 2)) = 6004799503160661 / 72057594037927936
   \<and> (6004799503160661 / 18014398509481984 :: rat) < 5254199565265579 / 9007199254740992
   \<and> (6004799503160661 / 72057594037927936 :: rat) < 6004799503160661 / 18014398509481984"
proof -
  have h: "(LEFT \<in> horizontal) = True" by (simp add: horizontal_def)
  have base: "double_of (TIC_double * (if LEFT \<in> horizontal then 1 / 2 else 1))
                = 6004799503160661 / 72057594037927936"
    using base_tick_double[of LEFT] by (simp only: h if_True)
  have l1: "(1::rat) / of_nat (length [mk_Coord 5 5] * 2) = 1 / 2"
    and l2: "(1::rat) / of_nat (length [mk_Coord 5 4, mk_Coord 5 5] * 2) = 1 / 4"
    by simp_all
  have b2: "double_of (1 / 4) = 1 / 4"
    using double_of_eqI[of "1 / 4" "- 2" 4503599627370496] by simp
  have s1: "double_of (6004799503160661 / 72057594037927936 + 1 / 2)
              = 5254199565265579 / 9007199254740992"
    using double_of_eqI[of "6004799503160661 / 72057594037927936 + 1 / 2" "- 1" 5254199565265579]
    by simp
  have s2: "double_of (6004799503160661 / 72057594037927936 + 1 / 4)
              = 6004799503160661 / 18014398509481984"
    using double_of_eqI[of "6004799503160661 / 72057594037927936 + 1 / 4" "- 2" 6004799503160661]
    by simp
  have r1: "calculate_frame_timeout_double [mk_Coord 5 5] LEFT
              = Inr (5254199565265579 / 9007199254740992)"
    by (simp only: calculate_frame_timeout_double_eq[of "[mk_Coord 5 5]", simplified] base l1
          double_of_half s1)
  have r2: "calculate_frame_timeout_double [mk_Coord 5 4, mk_Coord 5 5] LEFT
              = Inr (6004799503160661 / 18014398509481984)"
    by (simp only: calculate_frame_timeout_double_eq[of "[mk_Coord 5 4, mk_Coord 5 5]", simplified]
          base l2 b2 s2)
  have len: "1 \<le> length [mk_Coord 5 5]"
    "length [mk_Coord 5 5] < length [mk_Coord 5 4, mk_Coord 5 5]"
    "length [mk_Coord 5 4, mk_Coord 5 5] \<le> 2 ^ 25"
    by simp_all
  from calculate_frame_timeout_double_decreasing[OF len(1,2), of LEFT] len(3) r1 r2 base
  have "(6004799503160661 / 18014398509481984 :: rat) < 5254199565265579 / 9007199254740992"
    and "(6004799503160661 / 72057594037927936 :: rat) < 6004799503160661 / 18014398509481984"
    by auto
  moreover have "double_of (TIC_double * (1 / 2)) = 6004799503160661 / 72057594037927936"
    using base by (simp only: h if_True)
  ultimately show ?thesis using r1 r2 by (intro conjI)
qed

subsection \<open>The game loop\<close>

lemma mk_Coord_simps:
  "y (mk_Coord r c) = r"
  "x (mk_Coord r c) = c"
  "(mk_Coord r c = mk_Coord r' c') = (r = r' \<and> c = c')"
  "Coord_add (mk_Coord r c) (mk_Coord r' c') = mk_Coord (r + r') (c + c')"
  by (simp_all add: mk_Coord_def Coord_add_def)

lemma create_random_food_hit:
  assumes "random_inside_window w 5 (stl (stl g)) = Inr (c, g')" and "c \<notin> set s"
  shows "create_random_food w s g
           = Some (Inr (\<lparr>image_str = food_images ! (shd g mod length food_images),
                          coord = c,
                          color = food_colors ! (shd (stl g) mod length food_colors)\<rparr>, g'))"
  using random_outside_snake_hit[OF assms]
  by (simp add: create_random_food_def choice_def food_images_def food_colors_def)

text \<open>
  Claim C2 says that one tick from snake \<open>[(5,5)]\<close>, direction \<^verbatim>\<open>RIGHT\<close>, food at
  \<open>(5,6)\<close> in a 10 by 10 arena gives the grown snake \<open>[(5,6),(5,5)]\<close> and a relocated
  food. The eat check comes before the move and looks at the old head, so the tick
  only moves the snake onto the food.
\<close>

theorem tick_food_ahead_no_growth:
  "tick \<lparr>getmaxyx = (10, 10)\<rparr> None
     \<lparr>snake = [mk_Coord 5 5],
      food = \<lparr>image_str = 37, coord = mk_Coord 5 6, color = RED\<rparr>,
      direction = RIGHT, debug = False\<rparr> (sconst 0)
   = Some (Inr (Running,
       \<lparr>snake = [mk_Coord 5 6],
        food = \<lparr>image_str = 37, coord = mk_Coord 5 6, color = RED\<rparr>,
        direction = RIGHT, debug = False\<rparr>, sconst 0))
   \<and> [mk_Coord 5 6] \<noteq> [mk_Coord 5 6, mk_Coord 5 5]"
  by (simp add: tick_def poll_direction_def can_eat_food_def snake_move_def Let_def
        can_go_further_def get_window_max_yx_def from_direction_simps Coord_add_def
        mk_Coord_def BORDER_def)


lemma create_random_food_post:
  assumes "create_random_food w s g = Some (Inr (f, g'))"
  shows "coord f \<notin> set s"
proof -
  from assms obtain c g2 where "random_outside_snake w s g2 = Some (Inr (c, g'))" and "coord f = c"
    by (auto simp: create_random_food_def choice_def split: sum.splits option.splits if_splits)
  with ros_post[of w s g2 "Inr (c, g')"] show ?thesis by simp
qed

lemma create_random_food_raise:
  assumes "get_window_max_yx w = (max_y, max_x)" and "max_y < 10 \<or> max_x < 10"
  shows "create_random_food w s g = Some (Inl ValueError)"
proof -
  have "random_inside_window w 5 (stl (stl g)) = Inl ValueError"
    using random_inside_window_small[OF assms(1), of 5 "stl (stl g)"] assms(2) by auto
  from random_outside_snake_raise[OF this, of s] show ?thesis
    by (simp add: create_random_food_def choice_def food_images_def food_colors_def)
qed

text \<open>
  Claim C2, amended. From snake \<open>[(5,5)]\<close>, direction \<^verbatim>\<open>RIGHT\<close>, food at \<open>(5,6)\<close>, no
  key pressed, in a 10 by 10 arena, one tick gives the snake \<open>[(5,6)]\<close>, not grown,
  with the food still at \<open>(5,6)\<close> and the game running. The snake grows on the tick
  that starts with its head on the food: whenever that next tick returns a state, the
  snake is \<open>[(5,7),(5,6)]\<close> and the relocated food is not at \<open>(5,6)\<close>. In the window
  of 10 rows and 10 columns itself that next tick raises \<^verbatim>\<open>ValueError\<close>, the sampling
  range of the spawner being empty.
\<close>

theorem tick_food_ahead:
  "tick \<lparr>getmaxyx = (10, 10)\<rparr> None
     \<lparr>snake = [mk_Coord 5 5], food = f\<lparr>coord := mk_Coord 5 6\<rparr>,
      direction = RIGHT, debug = dbg\<rparr> g
   = Some (Inr (Running,
       \<lparr>snake = [mk_Coord 5 6], food = f\<lparr>coord := mk_Coord 5 6\<rparr>,
        direction = RIGHT, debug = dbg\<rparr>, g))
   \<and> (\<forall>w g1 st game' g'.
        tick w None
          \<lparr>snake = [mk_Coord 5 6], food = f\<lparr>coord := mk_Coord 5 6\<rparr>,
           direction = RIGHT, debug = dbg\<rparr> g1 = Some (Inr (st, game', g'))
        \<longrightarrow> snake game' = [mk_Coord 5 7, mk_Coord 5 6]
          \<and> coord (food game') \<noteq> mk_Coord 5 6)
   \<and> (\<forall>g2. tick \<lparr>getmaxyx = (10, 10)\<rparr> None
          \<lparr>snake = [mk_Coord 5 6], food = f\<lparr>coord := mk_Coord 5 6\<rparr>,
           direction = RIGHT, debug = dbg\<rparr> g2 = Some (Inl ValueError))"
proof (intro conjI allI impI)
  show "tick \<lparr>getmaxyx = (10, 10)\<rparr> None
     \<lparr>snake = [mk_Coord 5 5], food = f\<lparr>coord := mk_Coord 5 6\<rparr>,
      direction = RIGHT, debug = dbg\<rparr> g
   = Some (Inr (Running,
       \<lparr>snake = [mk_Coord 5 6], food = f\<lparr>coord := mk_Coord 5 6\<rparr>,
        direction = RIGHT, debug = dbg\<rparr>, g))"
    by (simp add: tick_def poll_direction_def can_eat_food_def snake_move_def Let_def
        can_go_further_def get_window_max_yx_def from_direction_simps Coord_add_def
        mk_Coord_def BORDER_def)
next
  fix w g1 st game' g'
  assume t: "tick w None
          \<lparr>snake = [mk_Coord 5 6], food = f\<lparr>coord := mk_Coord 5 6\<rparr>,
           direction = RIGHT, debug = dbg\<rparr> g1 = Some (Inr (st, game', g'))"
  then obtain f2 where f2: "create_random_food w [mk_Coord 5 6] g1 = Some (Inr (f2, g'))"
    and s: "snake game' = [mk_Coord 5 7, mk_Coord 5 6]" and f: "food game' = f2"
    by (auto simp: tick_def poll_direction_def can_eat_food_def snake_move_def Let_def
          from_direction_simps Coord_add_def mk_Coord_def
          split: option.splits sum.splits if_splits)
  from create_random_food_post[OF f2] f
  have "coord (food game') \<noteq> mk_Coord 5 6" by auto
  with s show "snake game' = [mk_Coord 5 7, mk_Coord 5 6]"
    and "coord (food game') \<noteq> mk_Coord 5 6" by simp_all
next
  fix g2
  have "get_window_max_yx \<lparr>getmaxyx = (10, 10)\<rparr> = (9, 9)"
    by (simp add: get_window_max_yx_def)
  from create_random_food_raise[OF this, of "[mk_Coord 5 6]" g2]
  show "tick \<lparr>getmaxyx = (10, 10)\<rparr> None
          \<lparr>snake = [mk_Coord 5 6], food = f\<lparr>coord := mk_Coord 5 6\<rparr>,
           direction = RIGHT, debug = dbg\<rparr> g2 = Some (Inl ValueError)"
    by (simp add: tick_def poll_direction_def can_eat_food_def)
qed

theorem tick_food_ahead_witness:
  "tick \<lparr>getmaxyx = (21, 21)\<rparr> None
     \<lparr>snake = [mk_Coord 5 6],
      food = \<lparr>image_str = 37, coord = mk_Coord 5 6, color = RED\<rparr>,
      direction = RIGHT, debug = False\<rparr> (sconst 0)
   = Some (Inr (Running,
       \<lparr>snake = [mk_Coord 5 7, mk_Coord 5 6],
        food = \<lparr>image_str = 37, coord = mk_Coord 5 5, color = RED\<rparr>,
        direction = RIGHT, debug = False\<rparr>, sconst 0))
   \<and> mk_Coord 5 5 \<noteq> mk_Coord 5 6"
proof -
  let ?w = "\<lparr>getmaxyx = (21, 21)\<rparr>"
  have a: "random_inside_window ?w 5 (stl (stl (sconst 0))) = Inr (mk_Coord 5 5, sconst 0)"
    by (simp add: random_inside_window_def randint_def get_window_max_yx_def)
  have b: "mk_Coord 5 5 \<notin> set [mk_Coord 5 6]" by (simp add: mk_Coord_simps)
  have t: "tick ?w None
     \<lparr>snake = [mk_Coord 5 6],
      food = \<lparr>image_str = 37, coord = mk_Coord 5 6, color = RED\<rparr>,
      direction = RIGHT, debug = False\<rparr> (sconst 0)
   = Some (Inr (Running,
       \<lparr>snake = [mk_Coord 5 7, mk_Coord 5 6],
        food = \<lparr>image_str = 37, coord = mk_Coord 5 5, color = RED\<rparr>,
        direction = RIGHT, debug = False\<rparr>, sconst 0))"
    by (simp add: tick_def poll_direction_def can_eat_food_def snake_move_def Let_def
        create_random_food_hit[OF a b] food_images_def food_colors_def
        can_go_further_def get_window_max_yx_def from_direction_simps mk_Coord_simps
        BORDER_def)
  from tick_food_ahead[of "\<lparr>image_str = 37, coord = mk_Coord 5 6, color = RED\<rparr>" False "sconst 0"]
  have "\<forall>w g1 st game' g'.
        tick w None
          \<lparr>snake = [mk_Coord 5 6],
           food = \<lparr>image_str = 37, coord = mk_Coord 5 6, color = RED\<rparr>,
           direction = RIGHT, debug = False\<rparr> g1 = Some (Inr (st, game', g'))
        \<longrightarrow> snake game' = [mk_Coord 5 7, mk_Coord 5 6]
          \<and> coord (food game') \<noteq> mk_Coord 5 6"
    by simp
  from this t have "coord (food \<lparr>snake = [mk_Coord 5 7, mk_Coord 5 6],
        food = \<lparr>image_str = 37, coord = mk_Coord 5 5, color = RED\<rparr>,
        direction = RIGHT, debug = False\<rparr>) \<noteq> mk_Coord 5 6"
    by blast
  with t show ?thesis by (simp add: mk_Coord_simps)
qed

text \<open>
  Claim C9. A polled direction opposite to the committed one is rejected: the game is
  unchanged by the control step and the tick is the tick without input, so the move
  uses the prior direction. For the snake \<open>[(3,3),(3,2),(3,1)]\<close> committed to
  \<^verbatim>\<open>RIGHT\<close>, an input of \<^verbatim>\<open>LEFT\<close> leaves the direction \<^verbatim>\<open>RIGHT\<close> and the new head is
  \<open>(3,4)\<close>; with the food not under the head the tick returns the snake
  \<open>[(3,4),(3,3),(3,2)]\<close>.
\<close>

theorem opposite_direction_rejected:
  "(is_opposite nd (direction game) \<longrightarrow>
      poll_direction (Some nd) game = game \<and> tick w (Some nd) game g = tick w None game g)
   \<and> (snake game = [mk_Coord 3 3, mk_Coord 3 2, mk_Coord 3 1] \<and> direction game = RIGHT \<longrightarrow>
        direction (poll_direction (Some LEFT) game) = RIGHT
      \<and> (\<forall>st game' g'. tick w (Some LEFT) game g = Some (Inr (st, game', g')) \<longrightarrow>
            direction game' = RIGHT \<and> hd (snake game') = mk_Coord 3 4)
      \<and> (coord (food game) \<noteq> mk_Coord 3 3 \<longrightarrow>
            (\<exists>st. tick w (Some LEFT) game g
                    = Some (Inr (st, game\<lparr>snake := [mk_Coord 3 4, mk_Coord 3 3, mk_Coord 3 2]\<rparr>, g)))))"
proof (intro conjI impI allI)
  assume o: "is_opposite nd (direction game)"
  then show p: "poll_direction (Some nd) game = game" by (simp add: poll_direction_def)
  show "tick w (Some nd) game g = tick w None game g"
    using o by (simp add: tick_def poll_direction_def)
next
  assume a: "snake game = [mk_Coord 3 3, mk_Coord 3 2, mk_Coord 3 1] \<and> direction game = RIGHT"
  then show "direction (poll_direction (Some LEFT) game) = RIGHT"
    by (simp add: poll_direction_def is_opposite_def)
next
  fix st game' g'
  assume a: "snake game = [mk_Coord 3 3, mk_Coord 3 2, mk_Coord 3 1] \<and> direction game = RIGHT"
    and t: "tick w (Some LEFT) game g = Some (Inr (st, game', g'))"
  then show "direction game' = RIGHT" and "hd (snake game') = mk_Coord 3 4"
    by (auto simp: tick_def poll_direction_def is_opposite_def can_eat_food_def snake_move_def
          Let_def from_direction_simps Coord_add_def mk_Coord_def
          split: option.splits sum.splits if_splits)
next
  assume a: "snake game = [mk_Coord 3 3, mk_Coord 3 2, mk_Coord 3 1] \<and> direction game = RIGHT"
    and f: "coord (food game) \<noteq> mk_Coord 3 3"
  have "game\<lparr>snake := [mk_Coord 3 4, mk_Coord 3 3, mk_Coord 3 2], food := food game\<rparr>
          = game\<lparr>snake := [mk_Coord 3 4, mk_Coord 3 3, mk_Coord 3 2]\<rparr>"
    by simp
  with a f show "\<exists>st. tick w (Some LEFT) game g
                    = Some (Inr (st, game\<lparr>snake := [mk_Coord 3 4, mk_Coord 3 3, mk_Coord 3 2]\<rparr>, g))"
    by (cases "getmaxyx w")
       (auto simp: tick_def poll_direction_def is_opposite_def can_eat_food_def snake_move_def
          Let_def from_direction_simps Coord_add_def mk_Coord_def can_go_further_def
          get_window_max_yx_def)
qed


theorem opposite_direction_rejected_witness:
  "is_opposite LEFT RIGHT
   \<and> poll_direction (Some LEFT)
        \<lparr>snake = [mk_Coord 3 3, mk_Coord 3 2, mk_Coord 3 1],
         food = \<lparr>image_str = 37, coord = mk_Coord 7 7, color = RED\<rparr>,
         direction = RIGHT, debug = False\<rparr>
     = \<lparr>snake = [mk_Coord 3 3, mk_Coord 3 2, mk_Coord 3 1],
         food = \<lparr>image_str = 37, coord = mk_Coord 7 7, color = RED\<rparr>,
         direction = RIGHT, debug = False\<rparr>
   \<and> tick \<lparr>getmaxyx = (21, 21)\<rparr> (Some LEFT)
        \<lparr>snake = [mk_Coord 3 3, mk_Coord 3 2, mk_Coord 3 1],
         food = \<lparr>image_str = 37, coord = mk_Coord 7 7, color = RED\<rparr>,
         direction = RIGHT, debug = False\<rparr> (sconst 0)
     = Some (Inr (Running,
         \<lparr>snake = [mk_Coord 3 4, mk_Coord 3 3, mk_Coord 3 2],
          food = \<lparr>image_str = 37, coord = mk_Coord 7 7, color = RED\<rparr>,
          direction = RIGHT, debug = False\<rparr>, sconst 0))"
proof -
  let ?w = "\<lparr>getmaxyx = (21, 21)\<rparr>"
  let ?game = "\<lparr>snake = [mk_Coord 3 3, mk_Coord 3 2, mk_Coord 3 1],
         food = \<lparr>image_str = 37, coord = mk_Coord 7 7, color = RED\<rparr>,
         direction = RIGHT, debug = False\<rparr>"
  have o: "is_opposite LEFT (direction ?game)" by (simp add: is_opposite_def)
  have s: "snake ?game = [mk_Coord 3 3, mk_Coord 3 2, mk_Coord 3 1] \<and> direction ?game = RIGHT"
    by simp
  have f: "coord (food ?game) \<noteq> mk_Coord 3 3" by (simp add: mk_Coord_simps)
  have n: "tick ?w None ?game (sconst 0)
     = Some (Inr (Running,
         \<lparr>snake = [mk_Coord 3 4, mk_Coord 3 3, mk_Coord 3 2],
          food = \<lparr>image_str = 37, coord = mk_Coord 7 7, color = RED\<rparr>,
          direction = RIGHT, debug = False\<rparr>, sconst 0))"
    by (simp add: tick_def poll_direction_def can_eat_food_def snake_move_def Let_def
        can_go_further_def get_window_max_yx_def from_direction_simps mk_Coord_simps
        BORDER_def)
  note r = opposite_direction_rejected[of LEFT ?game ?w "sconst 0"]
  from r o have p: "poll_direction (Some LEFT) ?game = ?game"
    and e: "tick ?w (Some LEFT) ?game (sconst 0) = tick ?w None ?game (sconst 0)"
    by blast+
  from r s f obtain st where
    "tick ?w (Some LEFT) ?game (sconst 0)
       = Some (Inr (st, ?game\<lparr>snake := [mk_Coord 3 4, mk_Coord 3 3, mk_Coord 3 2]\<rparr>, sconst 0))"
    by blast
  with e n have "st = Running" by simp
  with n e p o show ?thesis by simp
qed

text \<open>
  Claim C1 says that in every running state reached by the loop the segments of the
  snake are pairwise distinct. \<^verbatim>\<open>can_go_further\<close> looks one step ahead in the direction
  of the move just made, but the next tick may turn first. In a 21 by 21 window the
  snake eats on four ticks in a row while it goes left, down, right and up around a
  square; the last move puts the head on the cell of its last segment, and the game
  is still running.
\<close>

theorem play_turn_into_body:
  "play \<lparr>getmaxyx = (21, 21)\<rparr> False [None, Some LEFT, Some DOWN, Some RIGHT, Some UP]
     ([0, 0, 6, 5, 0, 0, 6, 4, 0, 0, 7, 4, 0, 0, 7, 5] @- sconst 0)
   = Some (Inr (Running,
       \<lparr>snake = [mk_Coord 11 10, mk_Coord 12 10, mk_Coord 12 9, mk_Coord 11 9, mk_Coord 11 10],
        food = \<lparr>image_str = 37, coord = mk_Coord 5 5, color = RED\<rparr>,
        direction = UP, debug = False\<rparr>, sconst 0))
   \<and> \<not> distinct [mk_Coord 11 10, mk_Coord 12 10, mk_Coord 12 9, mk_Coord 11 9, mk_Coord 11 10]"
proof -
  let ?w = "\<lparr>getmaxyx = (21, 21)\<rparr>"
  let ?red = "\<lambda>c. \<lparr>image_str = 37, coord = c, color = RED\<rparr>"
  let ?g1 = "[0, 0, 6, 4, 0, 0, 7, 4, 0, 0, 7, 5] @- sconst 0"
  let ?g2 = "[0, 0, 7, 4, 0, 0, 7, 5] @- sconst 0"
  let ?g3 = "[0, 0, 7, 5] @- sconst 0"
  have riw: "\<And>a b g. a < 11 \<Longrightarrow> b < 11 \<Longrightarrow>
      random_inside_window ?w 5 (a ## b ## g) = Inr (mk_Coord (5 + int a) (5 + int b), g)"
    by (simp add: random_inside_window_def randint_def get_window_max_yx_def)
  have crf: "\<And>a b g s. a < 11 \<Longrightarrow> b < 11 \<Longrightarrow> mk_Coord (5 + int a) (5 + int b) \<notin> set s \<Longrightarrow>
      create_random_food ?w s (0 ## 0 ## a ## b ## g)
        = Some (Inr (?red (mk_Coord (5 + int a) (5 + int b)), g))"
  proof -
    fix a b g s
    assume ab: "a < 11" "b < 11" and n: "mk_Coord (5 + int a) (5 + int b) \<notin> set s"
    have "random_inside_window ?w 5 (stl (stl (0 ## 0 ## a ## b ## g)))
            = Inr (mk_Coord (5 + int a) (5 + int b), g)"
      using riw[OF ab] by simp
    from create_random_food_hit[OF this n]
    show "create_random_food ?w s (0 ## 0 ## a ## b ## g)
        = Some (Inr (?red (mk_Coord (5 + int a) (5 + int b)), g))"
      by (simp add: food_images_def food_colors_def)
  qed
  note ev = tick_def poll_direction_def is_opposite_def can_eat_food_def snake_move_def Let_def
        can_go_further_def get_window_max_yx_def from_direction_simps mk_Coord_simps BORDER_def
  have i: "from_curses_window ?w False ([0, 0, 6, 5, 0, 0, 6, 4, 0, 0, 7, 4, 0, 0, 7, 5] @- sconst 0)
      = Some (Inr (\<lparr>snake = [mk_Coord 10 10], food = ?red (mk_Coord 11 10),
                    direction = DOWN, debug = False\<rparr>, ?g1))"
    using crf[of 6 5 "[mk_Coord 10 10]" ?g1]
    by (simp add: from_curses_window_def get_window_center_def get_window_max_yx_def
          mk_Coord_simps)
  have t1: "tick ?w None
       \<lparr>snake = [mk_Coord 10 10], food = ?red (mk_Coord 11 10), direction = DOWN, debug = False\<rparr> ?g1
     = Some (Inr (Running,
       \<lparr>snake = [mk_Coord 11 10], food = ?red (mk_Coord 11 10), direction = DOWN, debug = False\<rparr>,
       ?g1))"
    by (simp add: ev)
  have t2: "tick ?w (Some LEFT)
       \<lparr>snake = [mk_Coord 11 10], food = ?red (mk_Coord 11 10), direction = DOWN, debug = False\<rparr> ?g1
     = Some (Inr (Running,
       \<lparr>snake = [mk_Coord 11 9, mk_Coord 11 10], food = ?red (mk_Coord 11 9),
        direction = LEFT, debug = False\<rparr>, ?g2))"
    using crf[of 6 4 "[mk_Coord 11 10]" ?g2] by (simp add: ev)
  have t3: "tick ?w (Some DOWN)
       \<lparr>snake = [mk_Coord 11 9, mk_Coord 11 10], food = ?red (mk_Coord 11 9),
        direction = LEFT, debug = False\<rparr> ?g2
     = Some (Inr (Running,
       \<lparr>snake = [mk_Coord 12 9, mk_Coord 11 9, mk_Coord 11 10], food = ?red (mk_Coord 12 9),
        direction = DOWN, debug = False\<rparr>, ?g3))"
    using crf[of 7 4 "[mk_Coord 11 9, mk_Coord 11 10]" ?g3] by (simp add: ev)
  have t4: "tick ?w (Some RIGHT)
       \<lparr>snake = [mk_Coord 12 9, mk_Coord 11 9, mk_Coord 11 10], food = ?red (mk_Coord 12 9),
        direction = DOWN, debug = False\<rparr> ?g3
     = Some (Inr (Running,
       \<lparr>snake = [mk_Coord 12 10, mk_Coord 12 9, mk_Coord 11 9, mk_Coord 11 10],
        food = ?red (mk_Coord 12 10), direction = RIGHT, debug = False\<rparr>, sconst 0))"
    using crf[of 7 5 "[mk_Coord 12 9, mk_Coord 11 9, mk_Coord 11 10]" "sconst 0"] by (simp add: ev)
  have c0: "create_random_food ?w [mk_Coord 12 10, mk_Coord 12 9, mk_Coord 11 9, mk_Coord 11 10]
              (sconst 0) = Some (Inr (?red (mk_Coord 5 5), sconst 0))"
  proof -
    have "random_inside_window ?w 5 (stl (stl (sconst 0))) = Inr (mk_Coord 5 5, sconst 0)"
      by (simp add: random_inside_window_def randint_def get_window_max_yx_def)
    from create_random_food_hit[OF this, of "[mk_Coord 12 10, mk_Coord 12 9, mk_Coord 11 9, mk_Coord 11 10]"]
    show ?thesis by (simp add: food_images_def food_colors_def mk_Coord_simps)
  qed
  have t5: "tick ?w (Some UP)
       \<lparr>snake = [mk_Coord 12 10, mk_Coord 12 9, mk_Coord 11 9, mk_Coord 11 10],
        food = ?red (mk_Coord 12 10), direction = RIGHT, debug = False\<rparr> (sconst 0)
     = Some (Inr (Running,
       \<lparr>snake = [mk_Coord 11 10, mk_Coord 12 10, mk_Coord 12 9, mk_Coord 11 9, mk_Coord 11 10],
        food = ?red (mk_Coord 5 5), direction = UP, debug = False\<rparr>, sconst 0))"
    using c0 by (simp add: ev)
  have "play ?w False [None, Some LEFT, Some DOWN, Some RIGHT, Some UP]
     ([0, 0, 6, 5, 0, 0, 6, 4, 0, 0, 7, 4, 0, 0, 7, 5] @- sconst 0)
   = Some (Inr (Running,
       \<lparr>snake = [mk_Coord 11 10, mk_Coord 12 10, mk_Coord 12 9, mk_Coord 11 9, mk_Coord 11 10],
        food = ?red (mk_Coord 5 5), direction = UP, debug = False\<rparr>, sconst 0))"
    using i t1 t2 t3 t4 t5 by (simp add: play_def)
  then show ?thesis by simp
qed

text \<open>
  The head, on the other hand, stays inside the arena: a head that left the arena
  would be one step further out after the look-ahead, in whatever direction it moved.
\<close>

lemma tick_head_in_bounds:
  assumes "tick w polled game g = Some (Inr (Running, game', g'))"
    and "snake game \<noteq> []" and "in_bounds w (hd (snake game))"
  shows "snake game' \<noteq> [] \<and> in_bounds w (hd (snake game'))"
proof -
  obtain h t where s: "snake game = h # t" using assms(2) by (cases "snake game") auto
  let ?d = "direction (poll_direction polled game)"
  let ?n = "Coord_add h (from_direction ?d)"
  have sp: "snake (poll_direction polled game) = h # t"
    using s by (simp add: poll_direction_def split: option.splits)
  from assms(1) sp have hd: "snake game' \<noteq> [] \<and> hd (snake game') = ?n"
    and d: "direction game' = ?d"
    and ok: "can_go_further w (snake game') ?d = Inr True"
    by (auto simp: tick_def Let_def can_eat_food_def snake_move_def
          Coord_add_from_direction_neq
          split: option.splits sum.splits if_splits list.splits)
  obtain my mx where m: "get_window_max_yx w = (my, mx)" by (cases "get_window_max_yx w")
  from hd obtain t' where s': "snake game' = ?n # t'" by (cases "snake game'") auto
  from ok s' m have nn: "in_bounds w (Coord_add ?n (from_direction ?d))"
    by (auto simp: can_go_further_def Let_def in_bounds_def)
  from assms(3) s have hb: "in_bounds w h" by simp
  have "in_bounds w ?n"
    using nn hb m
    by (cases ?d) (auto simp: in_bounds_def from_direction_simps Coord_add_def mk_Coord_def)
  with hd show ?thesis by simp
qed

lemma main_loop_head_in_bounds:
  assumes "main_loop w inputs game g = Some (Inr (Running, game', g'))"
    and "snake game \<noteq> []" and "in_bounds w (hd (snake game))"
  shows "snake game' \<noteq> [] \<and> in_bounds w (hd (snake game'))"
  using assms
proof (induction inputs arbitrary: game g)
  case Nil
  then show ?case by simp
next
  case (Cons polled rest)
  from Cons.prems(1) obtain game1 g1 where
    t: "tick w polled game g = Some (Inr (Running, game1, g1))"
    and r: "main_loop w rest game1 g1 = Some (Inr (Running, game', g'))"
    by (auto split: option.splits sum.splits Status.splits)
  from tick_head_in_bounds[OF t Cons.prems(2,3)] Cons.IH[OF r] show ?case by blast
qed

lemma play_head_in_bounds:
  assumes "play w dbg inputs g = Some (Inr (Running, game', g'))"
  shows "snake game' \<noteq> [] \<and> in_bounds w (hd (snake game'))"
proof -
  from assms obtain game0 g0 where
    i: "from_curses_window w dbg g = Some (Inr (game0, g0))"
    and l: "main_loop w inputs game0 g0 = Some (Inr (Running, game', g'))"
    by (auto simp: play_def split: option.splits sum.splits)
  obtain my mx where m: "get_window_max_yx w = (my, mx)" by (cases "get_window_max_yx w")
  from i obtain f where s0: "snake game0 = [get_window_center w]"
    and c: "create_random_food w [get_window_center w] g = Some (Inr (f, g0))"
    by (auto simp: from_curses_window_def Let_def split: option.splits sum.splits)
  from c obtain c0 g2 where "random_outside_snake w [get_window_center w] g2 = Some (Inr (c0, g0))"
    by (auto simp: create_random_food_def choice_def split: sum.splits option.splits if_splits)
  from ros_post[OF this] obtain g3 where
    "random_inside_window w 5 g3 = Inr (c0, g0)" by auto
  from random_inside_window_range[OF this m] have big: "10 \<le> my" "10 \<le> mx" by auto
  then have "0 \<le> my div 2" "my div 2 \<le> my" "0 \<le> mx div 2" "mx div 2 \<le> mx" by presburger+
  then have "in_bounds w (get_window_center w)"
    using m by (simp add: in_bounds_def get_window_center_def mk_Coord_def BORDER_def)
  with main_loop_head_in_bounds[OF l] s0 show ?thesis by simp
qed

end
